theory Spec2Isabelle
  imports Main "HOL-Library.Char_ord" "HOL-Library.List_Lexorder" "HOL-Library.Product_Lexorder"
    "HOL-Library.Sublist" "HOL-Library.Multiset"
begin

section \<open>Data model of the dashboard\<close>

text \<open>
  The script \<^verbatim>\<open>Dashboard.py\<close> keeps its data in a pandas frame with the columns
  \<^verbatim>\<open>person, feature_category, sentiment, topic, action, date, due_date, raw_text\<close> and,
  after loading, \<^verbatim>\<open>status\<close>. A frame is modelled as the list of its rows, in row order.
  A cell the script guards against being missing (\<^verbatim>\<open>pd.isna\<close>, \<^verbatim>\<open>dropna\<close>,
  \<^verbatim>\<open>value_counts\<close>, which drops missing keys) is an \<open>option\<close>. A pandas timestamp is
  its count of nanoseconds since the epoch, an \<open>int\<close>; pandas keeps it in 64 bits, and the
  differences the script takes, of a due date and a reading of the clock less than 292
  years apart, fit in 64 bits too, so no wrap-around is modelled. A Python string is the list of the
  bytes of its UTF-8 encoding; equality and the code-point order of Python strings are
  equality and the lexicographic byte order on the encodings.
\<close>

type_synonym timestamp = int

record 'd row =
  person :: "string option"
  feature_category :: "string option"
  sentiment :: string
  topic :: string
  action :: string
  date :: 'd
  due_date :: 'd
  raw_text :: string

datatype due_status = NoDue | Overdue | DueSoon | OnTrack

record 'd srow = "'d row" +
  row_status :: due_status

type_synonym frame = "timestamp option srow list"

datatype py_error = FileNotFoundError | ValueError | IndexError

section \<open>Loading and status derivation (\<^verbatim>\<open>load_data\<close>)\<close>

text \<open>A raw spreadsheet cell of a date column: empty, already a date, or text.\<close>

datatype cell = Blank | Stamp timestamp | Text string

text \<open>
  \<^verbatim>\<open>pd.to_datetime(col, errors='coerce')\<close> converts a column as a whole: how it reads a
  text cell depends on the other cells of the column, and what it cannot read becomes
  missing. The conversion belongs to pandas and is a parameter of the model, a function
  from the column of cells to the column of timestamps, as long as the column it is given.
\<close>

definition keeps_length :: "(cell list \<Rightarrow> timestamp option list) \<Rightarrow> bool" where
  "keeps_length to_datetime \<longleftrightarrow> (\<forall>col. length (to_datetime col) = length col)"

definition ns_per_day :: int where
  "ns_per_day = 86400000000000"

text \<open>\<^verbatim>\<open>Timedelta.days\<close>: whole days, rounded towards minus infinity.\<close>

definition days :: "int \<Rightarrow> int" where
  "days td = td div ns_per_day"

text \<open>The nested function \<^verbatim>\<open>status(row)\<close>; \<open>today\<close> is the variable it closes over.\<close>

definition status :: "timestamp \<Rightarrow> (timestamp option, 'z) row_scheme \<Rightarrow> due_status" where
  "status today r =
     (case due_date r of
        None \<Rightarrow> NoDue
      | Some d \<Rightarrow>
          if d < today then Overdue
          else if days (d - today) \<le> 7 then DueSoon
          else OnTrack)"

definition set_dates ::
  "cell row \<Rightarrow> timestamp option \<Rightarrow> timestamp option \<Rightarrow> timestamp option row" where
  "set_dates r d dd =
     \<lparr>person = person r, feature_category = feature_category r, sentiment = sentiment r,
      topic = topic r, action = action r, date = d, due_date = dd, raw_text = raw_text r\<rparr>"

text \<open>Lines 19 and 20: the two date columns are converted and put back, row by row.\<close>

definition parse_dates ::
  "(cell list \<Rightarrow> timestamp option list) \<Rightarrow> cell row list \<Rightarrow> timestamp option row list" where
  "parse_dates to_datetime rows =
     map (\<lambda>(r, d, dd). set_dates r d dd)
       (zip rows (zip (to_datetime (map date rows)) (to_datetime (map due_date rows))))"

definition with_status :: "timestamp option row \<Rightarrow> due_status \<Rightarrow> timestamp option srow" where
  "with_status r s =
     \<lparr>person = person r, feature_category = feature_category r, sentiment = sentiment r,
      topic = topic r, action = action r, date = date r, due_date = due_date r,
      raw_text = raw_text r, row_status = s\<rparr>"

text \<open>
  What the script reads from outside: the spreadsheet \<^verbatim>\<open>Raw_text.xlsx\<close> (absent when it
  cannot be read) and the system clock. The clock is the sequence of the instants it will
  show, with the number of readings taken so far; \<^verbatim>\<open>pd.Timestamp.today()\<close> takes the next
  reading.
\<close>

record world =
  xlsx :: "cell row list option"
  clock :: "nat \<Rightarrow> timestamp"
  reads :: nat

definition today :: "world \<Rightarrow> timestamp \<times> world" where
  "today w = (clock w (reads w), w\<lparr>reads := Suc (reads w)\<rparr>)"

definition load_data ::
  "(cell list \<Rightarrow> timestamp option list) \<Rightarrow> world \<Rightarrow> (py_error + frame) \<times> world" where
  "load_data to_datetime w =
     (case xlsx w of
        None \<Rightarrow> (Inl FileNotFoundError, w)
      | Some rows \<Rightarrow>
          let df = parse_dates to_datetime rows;
              (today_v, w1) = today w
          in (Inr (map (\<lambda>r. with_status r (status today_v r)) df), w1))"

text \<open>The four-branch rule of the specification, on the due date and the instant alone.\<close>

definition status_rule :: "timestamp option \<Rightarrow> timestamp \<Rightarrow> due_status" where
  "status_rule due now =
     (if due = None then NoDue
      else if the due < now then Overdue
      else if 0 \<le> days (the due - now) \<and> days (the due - now) \<le> 7 then DueSoon
      else OnTrack)"

section \<open>pandas and Python primitives the script uses\<close>

text \<open>\<^verbatim>\<open>Series.dropna()\<close>: the present values, in order.\<close>

fun dropna :: "'a option list \<Rightarrow> 'a list" where
  "dropna [] = []"
| "dropna (None # xs) = dropna xs"
| "dropna (Some x # xs) = x # dropna xs"

text \<open>\<^verbatim>\<open>Series.unique()\<close>: the distinct values in order of first appearance.\<close>

fun unique :: "'a list \<Rightarrow> 'a list" where
  "unique [] = []"
| "unique (x # xs) = x # unique (removeAll x xs)"

text \<open>
  Boolean masks: \<^verbatim>\<open>col.isin(values)\<close> (a missing cell is in \<open>values\<close> when \<open>values\<close>
  holds a missing value), \<^verbatim>\<open>col == v\<close>, \<^verbatim>\<open>col != v\<close>, \<^verbatim>\<open>m1 & m2\<close>, the row selection
  \<^verbatim>\<open>df[mask]\<close> and \<^verbatim>\<open>mask.sum()\<close>.
\<close>

definition isin :: "'a list \<Rightarrow> 'a list \<Rightarrow> bool list" where
  "isin col vals = map (\<lambda>x. x \<in> set vals) col"

definition col_eq :: "'a list \<Rightarrow> 'a \<Rightarrow> bool list" where
  "col_eq col v = map (\<lambda>x. x = v) col"

definition col_ne :: "'a list \<Rightarrow> 'a \<Rightarrow> bool list" where
  "col_ne col v = map (\<lambda>x. x \<noteq> v) col"

definition mask_and :: "bool list \<Rightarrow> bool list \<Rightarrow> bool list" where
  "mask_and m1 m2 = map (\<lambda>(a, b). a \<and> b) (zip m1 m2)"

definition select_rows :: "'r list \<Rightarrow> bool list \<Rightarrow> 'r list" where
  "select_rows df msk = map fst (filter snd (zip df msk))"

definition mask_sum :: "bool list \<Rightarrow> nat" where
  "mask_sum msk = sum_list (map (\<lambda>b. if b then 1 else 0) msk)"

text \<open>
  Sorting. \<^verbatim>\<open>Series.sort_values\<close> and \<^verbatim>\<open>DataFrame.sort_values\<close> sort with the default
  method of NumPy, which is free to leave entries of equal key in any order. The sort is
  therefore a parameter of the model: any function that rearranges its argument into
  ascending order of the key.
\<close>

definition sorts_by :: "('a \<Rightarrow> 'k::linorder) \<Rightarrow> ('a list \<Rightarrow> 'a list) \<Rightarrow> bool" where
  "sorts_by key srt \<longleftrightarrow> (\<forall>xs. mset (srt xs) = mset xs \<and> sorted (map key (srt xs)))"

text \<open>
  \<^verbatim>\<open>Series.value_counts()\<close>: one entry per distinct present value with its number of
  occurrences, collected in order of first appearance and then sorted, the larger counts
  first (ascending in \<open>count_key\<close>).
\<close>

definition count_key :: "'a \<times> nat \<Rightarrow> int" where
  "count_key p = - int (snd p)"

definition value_counts ::
  "(('a \<times> nat) list \<Rightarrow> ('a \<times> nat) list) \<Rightarrow> 'a option list \<Rightarrow> ('a \<times> nat) list" where
  "value_counts sort_counts col =
     (let vals = dropna col
      in sort_counts (map (\<lambda>k. (k, count_list vals k)) (unique vals)))"

text \<open>
  \<^verbatim>\<open>Series.idxmax()\<close>: the label of the first entry holding the maximum; on an empty
  series it raises ValueError.
\<close>

fun idxmax_from :: "'a \<times> nat \<Rightarrow> ('a \<times> nat) list \<Rightarrow> 'a" where
  "idxmax_from best [] = fst best"
| "idxmax_from best (p # ps) = idxmax_from (if snd best < snd p then p else best) ps"

definition idxmax :: "('a \<times> nat) list \<Rightarrow> py_error + 'a" where
  "idxmax s = (case s of [] \<Rightarrow> Inl ValueError | p # ps \<Rightarrow> Inr (idxmax_from p ps))"

text \<open>\<^verbatim>\<open>Series.max()\<close> of a series of counts; the script calls it on non-empty series only.\<close>

definition series_max :: "('a \<times> nat) list \<Rightarrow> nat" where
  "series_max s = fold max (map snd s) 0"

text \<open>
  The key of \<^verbatim>\<open>df.sort_values('due_date')\<close>: ascending dates, the missing ones last.
\<close>

definition due_key :: "(timestamp option, 'z) row_scheme \<Rightarrow> nat \<times> int" where
  "due_key r = (case due_date r of None \<Rightarrow> (1, 0) | Some d \<Rightarrow> (0, d))"

text \<open>\<^verbatim>\<open>Series.iloc[0]\<close> on the rows of a frame.\<close>

definition iloc0 :: "'r list \<Rightarrow> py_error + 'r" where
  "iloc0 df = (case df of [] \<Rightarrow> Inl IndexError | r # _ \<Rightarrow> Inr r)"

text \<open>
  Python's \<^verbatim>\<open>round(a / b)\<close> for integers \<open>a \<ge> 0\<close> and \<open>b > 0\<close>: the nearest integer, a
  tie going to the even one. The script divides in double precision, which gives the same
  integer as the exact quotient for every frame below \<open>2^45\<close> rows, and the result is a
  Python integer, printed without a fraction.
\<close>

definition round_div :: "nat \<Rightarrow> nat \<Rightarrow> nat" where
  "round_div a b =
     (let q = a div b; r = a mod b
      in if 2 * r < b then q
         else if b < 2 * r then q + 1
         else if even q then q else q + 1)"

definition safe_pct :: "nat \<Rightarrow> nat \<Rightarrow> nat" where
  "safe_pct num den = (if den = 0 then 0 else round_div (100 * num) den)"

text \<open>Decimal text of a number, as an f-string prints it.\<close>

definition digit_char :: "nat \<Rightarrow> char" where
  "digit_char d = char_of (48 + d)"

fun str_nat :: "nat \<Rightarrow> string" where
  "str_nat n = (if n < 10 then [digit_char n] else str_nat (n div 10) @ [digit_char (n mod 10)])"

declare str_nat.simps [simp del]

definition zero_pad :: "nat \<Rightarrow> string \<Rightarrow> string" where
  "zero_pad w s = replicate (w - length s) (CHR ''0'') @ s"

text \<open>
  \<^verbatim>\<open>Timestamp.date()\<close> printed by an f-string: the calendar date of the day the instant
  falls in, as \<^verbatim>\<open>YYYY-MM-DD\<close>; the missing timestamp prints as \<^verbatim>\<open>NaT\<close>.
\<close>

definition civil_from_days :: "int \<Rightarrow> int \<times> int \<times> int" where
  "civil_from_days z0 =
     (let z = z0 + 719468;
          era = z div 146097;
          doe = z mod 146097;
          yoe = (doe - doe div 1460 + doe div 36524 - doe div 146096) div 365;
          doy = doe - (365 * yoe + yoe div 4 - yoe div 100);
          mp = (5 * doy + 2) div 153;
          d = doy - (153 * mp + 2) div 5 + 1;
          m = (if mp < 10 then mp + 3 else mp - 9);
          y = yoe + era * 400 + (if m \<le> 2 then 1 else 0)
      in (y, m, d))"

definition date_str :: "timestamp option \<Rightarrow> string" where
  "date_str t =
     (case t of
        None \<Rightarrow> ''NaT''
      | Some ns \<Rightarrow>
          (case civil_from_days (days ns) of
             (y, m, d) \<Rightarrow>
               zero_pad 4 (str_nat (nat y)) @ ''-'' @ zero_pad 2 (str_nat (nat m)) @ ''-''
               @ zero_pad 2 (str_nat (nat d))))"

text \<open>A person cell printed by an f-string: a missing cell prints as \<^verbatim>\<open>nan\<close>.\<close>

definition str_cell :: "string option \<Rightarrow> string" where
  "str_cell c = (case c of None \<Rightarrow> ''nan'' | Some s \<Rightarrow> s)"

text \<open>\<^verbatim>\<open>sep.join(parts)\<close>.\<close>

fun join :: "string \<Rightarrow> string list \<Rightarrow> string" where
  "join sep [] = []"
| "join sep [s] = s"
| "join sep (s # t # ss) = s @ sep @ join sep (t # ss)"

text \<open>The non-ASCII characters of the script's literals, in UTF-8.\<close>

definition plus_minus :: string where
  "plus_minus = [CHR 0xC2, CHR 0xB1]"

definition arrow :: string where
  "arrow = [CHR 0xE2, CHR 0x86, CHR 0x92]"

definition en_dash :: string where
  "en_dash = [CHR 0xE2, CHR 0x80, CHR 0x93]"

text \<open>Sequencing of steps that may raise.\<close>

definition bind_res :: "'e + 'a \<Rightarrow> ('a \<Rightarrow> 'e + 'b) \<Rightarrow> 'e + 'b" where
  "bind_res m f = (case m of Inl e \<Rightarrow> Inl e | Inr x \<Rightarrow> f x)"

section \<open>Sidebar filters (\<^verbatim>\<open>df_filt\<close>)\<close>

text \<open>
  The three \<^verbatim>\<open>multiselect\<close> widgets return lists of cell values; their defaults are the
  \<^verbatim>\<open>unique()\<close> values of the columns of the loaded frame.
\<close>

definition df_filt :: "frame \<Rightarrow> string option list \<Rightarrow> string option list \<Rightarrow> string list \<Rightarrow> frame" where
  "df_filt df person_sel feature_sel sent_sel =
     select_rows df
       (mask_and
          (mask_and (isin (map person df) person_sel)
                    (isin (map feature_category df) feature_sel))
          (isin (map sentiment df) sent_sel))"

section \<open>KPI cards\<close>

record kpi =
  total_topics :: nat
  pos :: nat
  mix :: nat
  neg :: nat
  due_soon :: nat
  overdue :: nat

definition kpi_cards :: "frame \<Rightarrow> kpi" where
  "kpi_cards df =
     \<lparr>total_topics = length df,
      pos = mask_sum (col_eq (map sentiment df) ''+''),
      mix = mask_sum (col_eq (map sentiment df) plus_minus),
      neg = mask_sum (col_eq (map sentiment df) ''-''),
      due_soon = mask_sum (col_eq (map row_status df) DueSoon),
      overdue = mask_sum (col_eq (map row_status df) Overdue)\<rparr>"

section \<open>Conversation explorer (\<^verbatim>\<open>sel_row\<close>)\<close>

definition sel_row :: "frame \<Rightarrow> string \<Rightarrow> py_error + timestamp option srow" where
  "sel_row df sel_topic = iloc0 (select_rows df (col_eq (map topic df) sel_topic))"

section \<open>Auto insights (\<^verbatim>\<open>build_insights\<close>)\<close>

text \<open>
  The function appends to the list \<^verbatim>\<open>insights\<close> in four blocks, modelled one by one;
  each takes the list built so far and returns the extended list, or the error raised.
\<close>

text \<open>The f-strings of the function, each as a function of the values it interpolates.\<close>

definition focus_line :: "string \<Rightarrow> nat \<Rightarrow> string" where
  "focus_line top_cat top_cat_pct =
     ''Focus is on **'' @ top_cat @ ''** ('' @ str_nat top_cat_pct @ ''% of topics).''"

definition snapshot_line ::
  "string \<Rightarrow> string \<Rightarrow> nat \<Rightarrow> nat \<Rightarrow> nat \<Rightarrow> nat \<Rightarrow> nat \<Rightarrow> nat \<Rightarrow> string" where
  "snapshot_line p p_top_cat p_top_pct p_pos p_mix p_neg pos_rate p_due =
     ''**'' @ p @ ''**: mainly **'' @ p_top_cat @ ''** ('' @ str_nat p_top_pct
     @ ''%). Sentiment '' @ arrow @ '' +:'' @ str_nat p_pos @ '', '' @ plus_minus @ '':''
     @ str_nat p_mix @ '', -:'' @ str_nat p_neg @ '' (**'' @ str_nat pos_rate
     @ ''% positive**). Urgent items: **'' @ str_nat p_due @ ''**.''"

definition urgency_line :: "nat \<Rightarrow> nat \<Rightarrow> string" where
  "urgency_line n overdue_cnt =
     ''Urgency: '' @ str_nat n @ '' items require attention (**'' @ str_nat overdue_cnt
     @ '' overdue**).''"

definition deadline_label :: "timestamp option srow \<Rightarrow> string" where
  "deadline_label r =
     date_str (due_date r) @ '' '' @ en_dash @ '' '' @ str_cell (person r) @ '': *''
     @ topic r @ ''*''"

definition deadlines_line :: "string list \<Rightarrow> string" where
  "deadlines_line labels = ''Next deadlines '' @ arrow @ '' '' @ join '' | '' labels"

definition wins_line :: "string \<Rightarrow> nat \<Rightarrow> string" where
  "wins_line top_win_cat n =
     ''Wins cluster in **'' @ top_win_cat @ ''** (e.g., '' @ str_nat n
     @ '' recent positives).''"

definition friction_line :: "string \<Rightarrow> string" where
  "friction_line top_frict_cat =
     ''Friction hotspots: **'' @ top_frict_cat @ ''** (prioritize coaching/unblocking).''"

text \<open>Block 1, overall focus.\<close>

type_synonym count_sort = "(string \<times> nat) list \<Rightarrow> (string \<times> nat) list"

type_synonym row_sort = "frame \<Rightarrow> frame"

definition overall_focus :: "count_sort \<Rightarrow> frame \<Rightarrow> string list \<Rightarrow> py_error + string list" where
  "overall_focus sort_counts df insights =
     (let cat_counts = value_counts sort_counts (map feature_category df)
      in if cat_counts \<noteq> [] then
           bind_res (idxmax cat_counts) (\<lambda>top_cat.
             let top_cat_pct = safe_pct (series_max cat_counts) (length df)
             in Inr (insights @ [focus_line top_cat top_cat_pct]))
         else Inr insights)"

text \<open>Block 2, the body of the loop over the persons and the loop itself.\<close>

definition person_snapshot ::
  "count_sort \<Rightarrow> frame \<Rightarrow> string \<Rightarrow> string list \<Rightarrow> py_error + string list" where
  "person_snapshot sort_counts df p insights =
     (let sub = select_rows df (col_eq (map person df) (Some p))
      in if sub = [] then Inr insights
         else
           let p_cat_counts = value_counts sort_counts (map feature_category sub)
           in bind_res (if p_cat_counts \<noteq> [] then idxmax p_cat_counts else Inr ''N/A'')
                (\<lambda>p_top_cat.
                   let p_top_pct =
                         safe_pct (if p_cat_counts \<noteq> [] then series_max p_cat_counts else 0)
                           (length sub);
                       p_pos = mask_sum (col_eq (map sentiment sub) ''+'');
                       p_mix = mask_sum (col_eq (map sentiment sub) plus_minus);
                       p_neg = mask_sum (col_eq (map sentiment sub) ''-'');
                       pos_rate = safe_pct p_pos (length sub);
                       p_due = mask_sum (isin (map row_status sub) [DueSoon, Overdue])
                   in Inr (insights @
                        [snapshot_line p p_top_cat p_top_pct p_pos p_mix p_neg pos_rate
                           p_due])))"

fun person_loop ::
  "count_sort \<Rightarrow> frame \<Rightarrow> string list \<Rightarrow> string list \<Rightarrow> py_error + string list" where
  "person_loop sort_counts df [] insights = Inr insights"
| "person_loop sort_counts df (p # ps) insights =
     bind_res (person_snapshot sort_counts df p insights) (person_loop sort_counts df ps)"

text \<open>Block 3, risk and urgency signal.\<close>

definition urgency_signal :: "row_sort \<Rightarrow> frame \<Rightarrow> string list \<Rightarrow> py_error + string list" where
  "urgency_signal sort_rows df insights =
     (let due = select_rows df (isin (map row_status df) [DueSoon, Overdue])
      in if due \<noteq> [] then
           let overdue_cnt = mask_sum (col_eq (map row_status due) Overdue);
               insights1 = insights @ [urgency_line (length due) overdue_cnt];
               up_next = take 3 (sort_rows due);
               labels = map deadline_label up_next
           in Inr (insights1 @ [deadlines_line labels])
         else Inr insights)"

text \<open>Block 4, wins and friction.\<close>

definition friction_categories :: "string option list" where
  "friction_categories =
     [Some ''Risk / Incident Management'', Some ''Process / Quality Metrics'',
      Some ''Projects / Execution'']"

definition wins_friction :: "count_sort \<Rightarrow> frame \<Rightarrow> string list \<Rightarrow> py_error + string list" where
  "wins_friction sort_counts df insights =
     (let wins = select_rows df (col_eq (map sentiment df) ''+'');
          frictions = select_rows df
            (mask_and (col_ne (map sentiment df) ''+'')
                      (isin (map feature_category df) friction_categories))
      in bind_res
           (if wins \<noteq> [] then
              bind_res (idxmax (value_counts sort_counts (map feature_category wins)))
                (\<lambda>top_win_cat.
                Inr (insights @ [wins_line top_win_cat (min 3 (length wins))]))
            else Inr insights)
           (\<lambda>insights1.
              if frictions \<noteq> [] then
                bind_res (idxmax (value_counts sort_counts (map feature_category frictions)))
                  (\<lambda>top_frict_cat. Inr (insights1 @ [friction_line top_frict_cat]))
              else Inr insights1))"

definition build_insights :: "count_sort \<Rightarrow> row_sort \<Rightarrow> frame \<Rightarrow> py_error + string list" where
  "build_insights sort_counts sort_rows df =
     (let insights = []
      in if df = [] then Inr [''No data under current filters.'']
         else
           bind_res (overall_focus sort_counts df insights) (\<lambda>insights1.
           bind_res (person_loop sort_counts df (sort (unique (dropna (map person df))))
                       insights1)
             (\<lambda>insights2.
           bind_res (urgency_signal sort_rows df insights2) (\<lambda>insights3.
           wins_friction sort_counts df insights3))))"

text \<open>The lines a call of \<^verbatim>\<open>build_insights\<close> returned; none when it raised.\<close>

definition emitted :: "py_error + string list \<Rightarrow> string list" where
  "emitted res = (case res of Inl e \<Rightarrow> [] | Inr ls \<Rightarrow> ls)"

section \<open>Upcoming deadlines (\<^verbatim>\<open>next7\<close>)\<close>

text \<open>This block of the page takes a reading of the clock of its own.\<close>

definition next7 :: "row_sort \<Rightarrow> world \<Rightarrow> frame \<Rightarrow> frame \<times> world" where
  "next7 sort_rows w df =
     (let (today_v, w1) = today w
      in (sort_rows
            (select_rows df
               (mask_and (map (\<lambda>r. due_date r \<noteq> None) df)
                  (map (\<lambda>r. case due_date r of
                               None \<Rightarrow> False
                             | Some d \<Rightarrow> 0 \<le> days (d - today_v) \<and> days (d - today_v) \<le> 7)
                     df))),
          w1))"

section \<open>Notions of the specification\<close>

text \<open>
  A category of highest count in a list of categories, and the dominant category as the
  specification fixes it: of highest count and the first in list order among those.
\<close>

definition top_category :: "'a list \<Rightarrow> 'a \<Rightarrow> bool" where
  "top_category cats c \<longleftrightarrow>
     c \<in> set cats \<and> (\<forall>d \<in> set cats. count_list cats d \<le> count_list cats c)"

definition dominant :: "'a list \<Rightarrow> 'a option" where
  "dominant cats = find (\<lambda>c. \<forall>d \<in> set cats. count_list cats d \<le> count_list cats c) cats"

text \<open>The label \<^verbatim>\<open>value_counts().idxmax()\<close> names for a list of present categories.\<close>

definition top_of :: "(('a \<times> nat) list \<Rightarrow> ('a \<times> nat) list) \<Rightarrow> 'a list \<Rightarrow> 'a option" where
  "top_of sort_counts cats =
     (case idxmax (value_counts sort_counts (map Some cats)) of
        Inl e \<Rightarrow> None
      | Inr c \<Rightarrow> Some c)"

definition categories :: "frame \<Rightarrow> string list" where
  "categories v = dropna (map feature_category v)"

text \<open>The category a line names for a frame; \<^verbatim>\<open>N/A\<close> when no category is present.\<close>

definition named_category :: "count_sort \<Rightarrow> frame \<Rightarrow> string" where
  "named_category sort_counts sub =
     (case top_of sort_counts (categories sub) of None \<Rightarrow> ''N/A'' | Some c \<Rightarrow> c)"

text \<open>The records of a person, of the urgent kind, the wins and the friction records.\<close>

definition sub_view :: "frame \<Rightarrow> string \<Rightarrow> frame" where
  "sub_view v p = filter (\<lambda>r. person r = Some p) v"

definition urgent :: "frame \<Rightarrow> frame" where
  "urgent v = filter (\<lambda>r. row_status r = DueSoon \<or> row_status r = Overdue) v"

definition wins_of :: "frame \<Rightarrow> frame" where
  "wins_of v = filter (\<lambda>r. sentiment r = ''+'') v"

definition frictions_of :: "frame \<Rightarrow> frame" where
  "frictions_of v =
     filter (\<lambda>r. sentiment r \<noteq> ''+'' \<and> feature_category r \<in> set friction_categories) v"

text \<open>
  The snapshot of a person that names the category \<open>c\<close>: the share of \<open>c\<close> among the
  person's records, the three sentiment counts, the share of positives, the number of
  urgent records.
\<close>

definition snapshot_of :: "frame \<Rightarrow> string \<Rightarrow> string \<Rightarrow> string" where
  "snapshot_of v p c =
     (let sub = sub_view v p;
          n_pos = length (filter (\<lambda>r. sentiment r = ''+'') sub)
      in snapshot_line p c
           (safe_pct (count_list (categories sub) c) (length sub))
           n_pos
           (length (filter (\<lambda>r. sentiment r = plus_minus) sub))
           (length (filter (\<lambda>r. sentiment r = ''-'') sub))
           (safe_pct n_pos (length sub))
           (length (urgent sub)))"

section \<open>Example frames\<close>

definition day :: "int \<Rightarrow> timestamp" where
  "day n = n * ns_per_day"

definition mk_row ::
  "string option \<Rightarrow> string option \<Rightarrow> string \<Rightarrow> string \<Rightarrow> timestamp option \<Rightarrow> due_status
   \<Rightarrow> timestamp option srow" where
  "mk_row p c s t d st =
     \<lparr>person = p, feature_category = c, sentiment = s, topic = t, action = [], date = None,
      due_date = d, raw_text = [], row_status = st\<rparr>"

text \<open>
  The three records of the specification's example, seen on day 19723 (2024-01-01):
  due in 3 days, due 2 days ago, no due date.
\<close>

definition ex_view :: frame where
  "ex_view =
     [mk_row (Some ''Alice'') (Some ''Process / Quality Metrics'') ''+'' ''Dashboards''
        (Some (day 19726)) DueSoon,
      mk_row (Some ''Alice'') (Some ''Process / Quality Metrics'') ''-'' ''Audit''
        (Some (day 19721)) Overdue,
      mk_row (Some ''Bob'') (Some ''Projects / Execution'') plus_minus ''Launch''
        None NoDue]"

text \<open>
  A frame with a tie between two categories, a missing person, a sentiment outside the
  three symbols and two records sharing a topic.
\<close>

definition ex_tie :: frame where
  "ex_tie =
     [mk_row (Some ''Bob'') (Some ''Hiring'') ''-'' ''Backfill'' None NoDue,
      mk_row None (Some ''Planning'') ''+'' ''Roadmap'' (Some (day 19730)) DueSoon,
      mk_row (Some ''Alice'') (Some ''Planning'') ''?'' ''Roadmap'' (Some (day 19730)) DueSoon,
      mk_row (Some ''Alice'') (Some ''Hiring'') ''+'' ''Interviews'' (Some (day 19800)) OnTrack]"

text \<open>Four urgent records, two of them due on the same day.\<close>

definition ex_due :: frame where
  "ex_due =
     [mk_row (Some ''Cara'') (Some ''Planning'') ''+'' ''Budget'' (Some (day 19725)) DueSoon,
      mk_row (Some ''Alice'') (Some ''Planning'') ''-'' ''Audit'' (Some (day 19721)) Overdue,
      mk_row (Some ''Bob'') (Some ''Hiring'') ''-'' ''Backfill'' (Some (day 19725)) DueSoon,
      mk_row (Some ''Dan'') (Some ''Hiring'') ''+'' ''Offer'' (Some (day 19722)) Overdue]"

text \<open>Two persons, out of order, one category each.\<close>

definition ex_pair :: frame where
  "ex_pair =
     [mk_row (Some ''Bob'') (Some ''Hiring'') ''-'' ''Backfill'' None NoDue,
      mk_row (Some ''Alice'') (Some ''Planning'') ''+'' ''Roadmap'' (Some (day 19730)) DueSoon]"

text \<open>One win and three friction records, two of them of the same category.\<close>

definition ex_wins :: frame where
  "ex_wins =
     [mk_row (Some ''Alice'') (Some ''Process / Quality Metrics'') ''-'' ''Audit''
        (Some (day 19721)) Overdue,
      mk_row (Some ''Bob'') (Some ''Planning'') ''+'' ''Roadmap'' None NoDue,
      mk_row (Some ''Bob'') (Some ''Risk / Incident Management'') plus_minus ''Outage''
        None NoDue,
      mk_row (Some ''Cara'') (Some ''Process / Quality Metrics'') ''?'' ''Review'' None NoDue]"

text \<open>Two records whose category is written without spaces around the slash.\<close>

definition ex_slash :: frame where
  "ex_slash =
     [mk_row (Some ''Alice'') (Some ''Risk/Incident Management'') ''-'' ''Outage'' None NoDue,
      mk_row (Some ''Bob'') (Some ''Risk/Incident Management'') ''+'' ''Drill'' None NoDue]"

text \<open>
  The spreadsheet behind \<open>ex_view\<close>.
\<close>

definition mk_raw ::
  "string option \<Rightarrow> string option \<Rightarrow> string \<Rightarrow> string \<Rightarrow> cell \<Rightarrow> cell row" where
  "mk_raw p c s t d =
     \<lparr>person = p, feature_category = c, sentiment = s, topic = t, action = [], date = Blank,
      due_date = d, raw_text = []\<rparr>"

definition ex_rows :: "cell row list" where
  "ex_rows =
     [mk_raw (Some ''Alice'') (Some ''Process / Quality Metrics'') ''+'' ''Dashboards''
        (Stamp (day 19726)),
      mk_raw (Some ''Alice'') (Some ''Process / Quality Metrics'') ''-'' ''Audit''
        (Stamp (day 19721)),
      mk_raw (Some ''Bob'') (Some ''Projects / Execution'') plus_minus ''Launch'' Blank]"

text \<open>A conversion that keeps the cells that are dates and reads no text.\<close>

definition only_stamps :: "cell list \<Rightarrow> timestamp option list" where
  "only_stamps col = map (\<lambda>c. case c of Stamp t \<Rightarrow> Some t | _ \<Rightarrow> None) col"

text \<open>
  Three states of the world that hold the spreadsheet: in the first the next reading of
  the clock is day 19723, in the second a week later, in the third the clock runs
  otherwise and seven readings were taken, and the next one is day 19723 again.
\<close>

definition ex_world_a :: world where
  "ex_world_a = \<lparr>xlsx = Some ex_rows, clock = (\<lambda>n. day 19723 + int n), reads = 0\<rparr>"

definition ex_world_b :: world where
  "ex_world_b = \<lparr>xlsx = Some ex_rows, clock = (\<lambda>n. day 19730 + int n), reads = 0\<rparr>"

definition ex_world_c :: world where
  "ex_world_c = \<lparr>xlsx = Some ex_rows, clock = (\<lambda>n. day (19716 + int n)), reads = 7\<rparr>"

text \<open>
  Two sorts: one leaves entries of equal key in the order it finds them, the other in the
  opposite order.
\<close>

definition keep_ties :: "('a \<Rightarrow> 'k::linorder) \<Rightarrow> 'a list \<Rightarrow> 'a list" where
  "keep_ties key xs = sort_key key xs"

definition flip_ties :: "('a \<Rightarrow> 'k::linorder) \<Rightarrow> 'a list \<Rightarrow> 'a list" where
  "flip_ties key xs = sort_key key (rev xs)"

section \<open>Facts about the primitives\<close>

lemma days_nonneg: "0 \<le> td \<Longrightarrow> 0 \<le> days td"
  by (simp add: days_def ns_per_day_def)

lemma status_is_rule: "status now r = status_rule (due_date r) now"
  by (cases "due_date r") (simp_all add: status_def status_rule_def days_nonneg)

lemma with_status_fields:
  "row_status (with_status r s) = s" "due_date (with_status r s) = due_date r"
  by (simp_all add: with_status_def)

lemma select_rows_map: "select_rows df (map P df) = filter P df"
  unfolding select_rows_def by (induction df) auto

lemma mask_and_map: "mask_and (map P xs) (map Q xs) = map (\<lambda>x. P x \<and> Q x) xs"
  unfolding mask_and_def by (induction xs) auto

lemma isin_map: "isin (map f xs) vals = map (\<lambda>x. f x \<in> set vals) xs"
  by (simp add: isin_def)

lemma col_eq_map: "col_eq (map f xs) v = map (\<lambda>x. f x = v) xs"
  by (simp add: col_eq_def)

lemma col_ne_map: "col_ne (map f xs) v = map (\<lambda>x. f x \<noteq> v) xs"
  by (simp add: col_ne_def)

lemma mask_sum_map: "mask_sum (map P xs) = length (filter P xs)"
  unfolding mask_sum_def by (induction xs) auto

lemma set_unique: "set (unique xs) = set xs"
  by (induction xs rule: unique.induct) auto

lemma distinct_unique: "distinct (unique xs)"
  by (induction xs rule: unique.induct) (auto simp: set_unique)

lemma find_removeAll: "\<not> P x \<Longrightarrow> find P (removeAll x xs) = find P xs"
  by (induction xs) auto

lemma find_unique: "find P (unique xs) = find P xs"
  by (induction xs rule: unique.induct) (auto simp: find_removeAll)

lemma set_dropna: "set (dropna xs) = {x. Some x \<in> set xs}"
  by (induction xs rule: dropna.induct) auto

lemma idxmax_from_decomp:
  "\<exists>pre c post. b # ps = pre @ (idxmax_from b ps, c) # post
      \<and> (\<forall>q\<in>set pre. snd q < c) \<and> (\<forall>q\<in>set post. snd q \<le> c)"
proof (induction ps arbitrary: b)
  case Nil
  show ?case
    by (rule exI[of _ "[]"], rule exI[of _ "snd b"], rule exI[of _ "[]"]) simp
next
  case (Cons p ps)
  let ?b' = "if snd b < snd p then p else b"
  from Cons.IH[of ?b'] obtain pre c post where
    d: "?b' # ps = pre @ (idxmax_from ?b' ps, c) # post"
    and lt: "\<forall>q\<in>set pre. snd q < c" and le: "\<forall>q\<in>set post. snd q \<le> c" by blast
  show ?case
  proof (cases pre)
    case Nil
    with d have hd: "?b' = (idxmax_from ?b' ps, c)" and post: "post = ps" by auto
    show ?thesis
    proof (cases "snd b < snd p")
      case True
      with hd have "p = (idxmax_from ?b' ps, c)" by simp
      then have "b # p # ps = [b] @ (idxmax_from b (p # ps), c) # post" using post True by simp
      moreover have "\<forall>q\<in>set [b]. snd q < c" using True hd by (auto simp: split: if_splits) (metis snd_conv)
      ultimately show ?thesis using le by blast
    next
      case False
      with hd have "b = (idxmax_from ?b' ps, c)" by simp
      then have "b # p # ps = [] @ (idxmax_from b (p # ps), c) # (p # post)" using post False by simp
      moreover have "snd p \<le> c" using False hd by (auto split: if_splits) (metis snd_conv not_less)
      ultimately show ?thesis using le by (metis empty_iff list.set(1) set_ConsD)
    qed
  next
    case (Cons a pre')
    with d have a: "a = ?b'" and ps: "ps = pre' @ (idxmax_from ?b' ps, c) # post" by auto
    have "snd ?b' < c" using lt Cons a by auto
    then have "snd b < c" "snd p < c" by (auto split: if_splits)
    moreover have "b # p # ps = (b # p # pre') @ (idxmax_from b (p # ps), c) # post"
      using ps by simp
    moreover have "\<forall>q\<in>set pre'. snd q < c" using lt Cons by auto
    ultimately show ?thesis using le
      by (metis (no_types, lifting) set_ConsD)
  qed
qed

lemma find_filter: "find P xs = (case filter P xs of [] \<Rightarrow> None | x # _ \<Rightarrow> Some x)"
  by (induction xs) auto

lemma find_map_comp: "find P (map g xs) = map_option g (find (\<lambda>x. P (g x)) xs)"
  by (induction xs) auto

lemma fold_max_eq:
  fixes c :: nat
  assumes "\<forall>x\<in>set xs. x \<le> c" and "c \<in> set xs" and "a \<le> c"
  shows "fold max xs a = c"
proof -
  have "fold max xs a = Max (set (a # xs))" by (simp only: Max.set_eq_fold)
  also have "\<dots> = c" using assms by (intro Max_eqI) auto
  finally show ?thesis .
qed

lemma sorts_by_set: "sorts_by key srt \<Longrightarrow> set (srt xs) = set xs"
  unfolding sorts_by_def by (metis mset_eq_setD)

lemma sorts_by_length: "sorts_by key srt \<Longrightarrow> length (srt xs) = length xs"
  unfolding sorts_by_def by (metis mset_eq_length)

lemma sorts_by_sorted: "sorts_by key srt \<Longrightarrow> sorted (map key (srt xs))"
  unfolding sorts_by_def by blast

lemma keep_ties_sorts: "sorts_by key (keep_ties key)"
  by (simp add: sorts_by_def keep_ties_def)

lemma flip_ties_sorts: "sorts_by key (flip_ties key)"
  by (simp add: sorts_by_def flip_ties_def)

lemma dropna_map_Some: "dropna (map Some xs) = xs"
  by (induction xs) auto

lemma value_counts_set:
  assumes "sorts_by key sc"
  shows "set (value_counts sc col)
           = (\<lambda>k. (k, count_list (dropna col) k)) ` set (dropna col)"
  by (simp add: value_counts_def Let_def sorts_by_set[OF assms] set_unique)

lemma value_counts_Nil_iff:
  assumes "sorts_by key sc"
  shows "value_counts sc col = [] \<longleftrightarrow> dropna col = []"
  using value_counts_set[OF assms, of col] by (metis image_is_empty set_empty)

text \<open>Whatever the sort does with equal counts, the label named has the highest count.\<close>

lemma idxmax_value_counts:
  assumes sc: "sorts_by key sc" and ne: "dropna col \<noteq> []"
  shows "\<exists>c. top_category (dropna col) c \<and> idxmax (value_counts sc col) = Inr c
           \<and> series_max (value_counts sc col) = count_list (dropna col) c"
proof -
  define vals where "vals = dropna col"
  define vc where "vc = value_counts sc col"
  have setvc: "set vc = (\<lambda>k. (k, count_list vals k)) ` set vals"
    unfolding vc_def vals_def by (rule value_counts_set[OF sc])
  have "vals \<noteq> []" using ne by (simp add: vals_def)
  then have "set vc \<noteq> {}" using setvc by simp
  then obtain b ps where bps: "vc = b # ps" by (cases vc) auto
  define r where "r = idxmax_from b ps"
  have idx: "idxmax vc = Inr r" by (simp add: idxmax_def bps r_def)
  from idxmax_from_decomp[of b ps] obtain pre c post where
    d: "vc = pre @ (r, c) # post" and lt: "\<forall>q\<in>set pre. snd q < c"
    and le: "\<forall>q\<in>set post. snd q \<le> c" unfolding bps r_def by blast
  have "(r, c) \<in> set vc" using d by simp
  then have rc: "r \<in> set vals" "c = count_list vals r" using setvc by auto
  have allle: "count_list vals k \<le> c" if "k \<in> set vals" for k
  proof -
    have "(k, count_list vals k) \<in> set vc" using that setvc by auto
    then show ?thesis using d lt le by (auto simp: less_imp_le dest!: bspec)
  qed
  have top: "top_category vals r" using rc allle by (simp add: top_category_def)
  have "series_max vc = c" unfolding series_max_def
  proof (rule fold_max_eq)
    show "\<forall>x\<in>set (map snd vc). x \<le> c" using setvc allle by auto
    show "c \<in> set (map snd vc)" using d by force
    show "0 \<le> c" by simp
  qed
  then show ?thesis using top idx rc by (auto simp: vc_def vals_def)
qed

text \<open>A sort that leaves equal counts as it finds them makes it the dominant category.\<close>

lemma idxmax_value_counts_keep_ties:
  assumes ne: "dropna col \<noteq> []"
  shows "\<exists>c. dominant (dropna col) = Some c
           \<and> idxmax (value_counts (keep_ties count_key) col) = Inr c"
proof -
  define vals where "vals = dropna col"
  define g where "g = (\<lambda>k. (k, count_list vals k))"
  define L where "L = map g (unique vals)"
  define vc where "vc = sort_key count_key L"
  have vc: "value_counts (keep_ties count_key) col = vc"
    by (simp add: value_counts_def Let_def keep_ties_def vc_def L_def g_def vals_def)
  have setvc: "set vc = g ` set vals" by (simp add: vc_def L_def set_unique)
  have "vals \<noteq> []" using ne by (simp add: vals_def)
  then have "set vc \<noteq> {}" using setvc by simp
  then obtain b ps where bps: "vc = b # ps" by (cases vc) auto
  define r where "r = idxmax_from b ps"
  have idx: "idxmax vc = Inr r" by (simp add: idxmax_def bps r_def)
  from idxmax_from_decomp[of b ps] obtain pre c post where
    d: "vc = pre @ (r, c) # post" and lt: "\<forall>q\<in>set pre. snd q < c"
    and le: "\<forall>q\<in>set post. snd q \<le> c" unfolding bps r_def by blast
  have "(r, c) \<in> set vc" using d by simp
  then have rc: "r \<in> set vals" "c = count_list vals r" using setvc by (auto simp: g_def)
  have allle: "count_list vals k \<le> c" if "k \<in> set vals" for k
  proof -
    have "(k, count_list vals k) \<in> set vc" using that setvc by (auto simp: g_def)
    then show ?thesis using d lt le by (auto simp: less_imp_le dest!: bspec)
  qed
  have "filter (\<lambda>y. count_key y = - int c) pre = []"
    using lt by (auto simp: count_key_def filter_empty_conv)
  then have "filter (\<lambda>y. count_key y = - int c) vc
               = (r, c) # filter (\<lambda>y. count_key y = - int c) post"
    by (simp add: d count_key_def)
  moreover have "filter (\<lambda>y. count_key y = - int c) vc = filter (\<lambda>y. count_key y = - int c) L"
    unfolding vc_def by (rule sort_key_stable)
  ultimately have "find (\<lambda>y. count_key y = - int c) L = Some (r, c)"
    by (simp add: find_filter)
  then have "map_option g (find (\<lambda>k. count_key (g k) = - int c) (unique vals)) = Some (r, c)"
    by (simp add: L_def find_map_comp)
  then have fr: "find (\<lambda>k. count_list vals k = c) (unique vals) = Some r"
    by (auto simp: g_def count_key_def)
  have "dominant vals
          = find (\<lambda>c. \<forall>d\<in>set vals. count_list vals d \<le> count_list vals c) (unique vals)"
    by (simp add: dominant_def find_unique)
  also have "\<dots> = find (\<lambda>k. count_list vals k = c) (unique vals)"
  proof (rule find_cong[OF refl])
    fix k assume "k \<in> set (unique vals)"
    then have k: "k \<in> set vals" by (simp add: set_unique)
    show "(\<forall>d\<in>set vals. count_list vals d \<le> count_list vals k) = (count_list vals k = c)"
      using allle[OF k] allle rc by (auto simp: le_antisym)
  qed
  finally have dom: "dominant vals = Some r" using fr by simp
  then show ?thesis using idx by (simp add: vc vals_def[symmetric])
qed

lemma round_div_nearest:
  assumes "0 < b"
  shows "\<bar>2 * (int (round_div a b) * int b) - 2 * int a\<bar> \<le> int b"
proof -
  define q where "q = a div b"
  define r where "r = a mod b"
  have "a = q * b + r" by (simp add: q_def r_def)
  then have a: "int a = int q * int b + int r" by (metis of_nat_add of_nat_mult)
  have rb: "r < b" using assms by (simp add: r_def)
  consider (lo) "2 * r < b" | (hi) "b < 2 * r" | (tie) "2 * r = b" by linarith
  then show ?thesis
  proof cases
    case lo
    then have "round_div a b = q" by (simp add: round_div_def Let_def q_def r_def)
    then show ?thesis using a lo by simp
  next
    case hi
    then have "round_div a b = q + 1" by (simp add: round_div_def Let_def q_def r_def)
    then show ?thesis using a hi rb by (simp add: algebra_simps)
  next
    case tie
    then have "round_div a b = q \<or> round_div a b = q + 1"
      by (simp add: round_div_def Let_def q_def r_def)
    then show ?thesis using a tie by (auto simp: algebra_simps)
  qed
qed

lemma round_div_tie_even:
  assumes "0 < b" and "2 * (a mod b) = b"
  shows "even (round_div a b)"
  using assms by (simp add: round_div_def Let_def)

lemma sorted_keys_unique:
  fixes f :: "'a \<Rightarrow> 'k::linorder"
  assumes "mset xs = mset ys" and "sorted (map f xs)" and "sorted (map f ys)"
    and "inj_on f (set ys)"
  shows "xs = ys"
proof -
  have "mset (map f xs) = mset (map f ys)" using assms(1) by simp
  then have "map f xs = map f ys"
    using assms(2,3) by (metis properties_for_sort)
  moreover have "set xs = set ys" using assms(1) by (rule mset_eq_setD)
  ultimately show ?thesis using assms(4) by (simp add: inj_on_map_eq_map)
qed

section \<open>The blocks of \<^verbatim>\<open>build_insights\<close>\<close>

lemma categories_value_counts:
  "value_counts sc (map Some (categories v)) = value_counts sc (map feature_category v)"
  by (simp add: value_counts_def categories_def dropna_map_Some)

lemma top_of_Nil:
  assumes "sorts_by key sc"
  shows "top_of sc [] = None"
proof -
  have "length (sc []) = 0" using sorts_by_length[OF assms, of "[]"] by simp
  then have "sc [] = []" by simp
  then show ?thesis by (simp add: top_of_def value_counts_def idxmax_def)
qed

lemma top_of_nonempty:
  assumes sc: "sorts_by key sc" and ne: "categories w \<noteq> []"
  shows "\<exists>c. top_of sc (categories w) = Some c \<and> top_category (categories w) c
            \<and> idxmax (value_counts sc (map feature_category w)) = Inr c
            \<and> series_max (value_counts sc (map feature_category w))
                = count_list (categories w) c"
proof -
  have "dropna (map feature_category w) \<noteq> []" using ne by (simp add: categories_def)
  from idxmax_value_counts[OF sc this] obtain c where
    c: "top_category (categories w) c"
       "idxmax (value_counts sc (map feature_category w)) = Inr c"
       "series_max (value_counts sc (map feature_category w)) = count_list (categories w) c"
    unfolding categories_def by blast
  then have "top_of sc (categories w) = Some c"
    by (simp add: top_of_def categories_value_counts)
  with c show ?thesis by blast
qed

lemma top_of_None_iff:
  assumes "sorts_by key sc"
  shows "top_of sc (categories w) = None \<longleftrightarrow> categories w = []"
  using top_of_nonempty[OF assms, of w] top_of_Nil[OF assms] by (cases "categories w = []") auto

lemma overall_focus_lines:
  assumes sc: "sorts_by key sc"
  shows "overall_focus sc v ins =
     Inr (ins @ (case top_of sc (categories v) of
                   None \<Rightarrow> []
                 | Some c \<Rightarrow> [focus_line c (safe_pct (count_list (categories v) c) (length v))]))"
proof (cases "categories v = []")
  case True
  then have "value_counts sc (map feature_category v) = []"
    by (simp add: value_counts_Nil_iff[OF sc] categories_def)
  then show ?thesis using True by (simp add: overall_focus_def top_of_Nil[OF sc])
next
  case False
  from top_of_nonempty[OF sc False] obtain c where
    "top_of sc (categories v) = Some c"
    "idxmax (value_counts sc (map feature_category v)) = Inr c"
    "series_max (value_counts sc (map feature_category v)) = count_list (categories v) c"
    by blast
  moreover have "value_counts sc (map feature_category v) \<noteq> []"
    using False by (simp add: value_counts_Nil_iff[OF sc] categories_def)
  ultimately show ?thesis by (simp add: overall_focus_def bind_res_def)
qed

lemma urgent_isin:
  "select_rows v (isin (map row_status v) [DueSoon, Overdue]) = urgent v"
  by (simp add: isin_map select_rows_map urgent_def)

lemma person_snapshot_lines:
  assumes sc: "sorts_by key sc"
  shows "person_snapshot sc v p ins
    = Inr (ins @ (if sub_view v p = [] then []
                  else [snapshot_of v p (named_category sc (sub_view v p))]))"
proof -
  have sub: "select_rows v (col_eq (map person v) (Some p)) = sub_view v p"
    by (simp add: col_eq_map select_rows_map sub_view_def)
  have urg: "mask_sum (isin (map row_status (sub_view v p)) [DueSoon, Overdue])
               = length (urgent (sub_view v p))"
    by (simp add: isin_map mask_sum_map urgent_def)
  show ?thesis
  proof (cases "sub_view v p = []")
    case True
    then show ?thesis unfolding person_snapshot_def sub by simp
  next
    case ne: False
    show ?thesis
    proof (cases "categories (sub_view v p) = []")
      case True
      then have "value_counts sc (map feature_category (sub_view v p)) = []"
        by (simp add: value_counts_Nil_iff[OF sc] categories_def)
      then show ?thesis using True ne
        unfolding person_snapshot_def sub Let_def urg
        by (simp add: bind_res_def snapshot_of_def named_category_def top_of_Nil[OF sc]
            col_eq_map mask_sum_map Let_def)
    next
      case False
      from top_of_nonempty[OF sc False] obtain c where
        "top_of sc (categories (sub_view v p)) = Some c"
        "idxmax (value_counts sc (map feature_category (sub_view v p))) = Inr c"
        "series_max (value_counts sc (map feature_category (sub_view v p)))
           = count_list (categories (sub_view v p)) c"
        by blast
      moreover have "value_counts sc (map feature_category (sub_view v p)) \<noteq> []"
        using False by (simp add: value_counts_Nil_iff[OF sc] categories_def)
      ultimately show ?thesis using ne
        unfolding person_snapshot_def sub Let_def urg
        by (simp add: bind_res_def snapshot_of_def named_category_def col_eq_map
            mask_sum_map Let_def)
    qed
  qed
qed

lemma person_loop_lines:
  assumes sc: "sorts_by key sc"
  shows "person_loop sc v ps ins =
     Inr (ins @ concat (map (\<lambda>p. if sub_view v p = [] then []
                                else [snapshot_of v p (named_category sc (sub_view v p))]) ps))"
  by (induction ps arbitrary: ins) (simp_all add: person_snapshot_lines[OF sc] bind_res_def)

lemma sub_view_nonempty: "Some p \<in> person ` set v \<Longrightarrow> sub_view v p \<noteq> []"
  by (auto simp: sub_view_def filter_empty_conv)

lemma person_loop_present:
  assumes sc: "sorts_by key sc" and "\<forall>p\<in>set ps. Some p \<in> person ` set v"
  shows "person_loop sc v ps ins
           = Inr (ins @ map (\<lambda>p. snapshot_of v p (named_category sc (sub_view v p))) ps)"
proof -
  have "concat (map (\<lambda>p. if sub_view v p = [] then []
                          else [snapshot_of v p (named_category sc (sub_view v p))]) ps)
          = map (\<lambda>p. snapshot_of v p (named_category sc (sub_view v p))) ps"
    using assms(2) by (induction ps) (simp_all add: sub_view_nonempty)
  then show ?thesis by (simp add: person_loop_lines[OF sc])
qed

lemma persons_sorted:
  "sorted_wrt (<) (sort (unique (dropna xs)))
   \<and> set (sort (unique (dropna xs))) = {p. Some p \<in> set xs}"
  by (simp add: strict_sorted_iff distinct_unique set_unique set_dropna)

lemma urgency_signal_lines:
  "urgency_signal sr v ins =
     Inr (ins @ (if urgent v = [] then []
                 else [urgency_line (length (urgent v))
                         (length (filter (\<lambda>r. row_status r = Overdue) (urgent v))),
                       deadlines_line (map deadline_label (take 3 (sr (urgent v))))]))"
  by (simp add: urgency_signal_def urgent_isin col_eq_map mask_sum_map Let_def)

lemma wins_select: "select_rows v (col_eq (map sentiment v) ''+'') = wins_of v"
  by (simp add: col_eq_map select_rows_map wins_of_def)

lemma frictions_select:
  "select_rows v (mask_and (col_ne (map sentiment v) ''+'')
                   (isin (map feature_category v) friction_categories)) = frictions_of v"
  by (simp add: col_ne_map isin_map mask_and_map select_rows_map frictions_of_def)

lemma frictions_categories:
  "frictions_of v \<noteq> [] \<Longrightarrow> categories (frictions_of v) \<noteq> []"
proof -
  assume "frictions_of v \<noteq> []"
  then obtain r where r: "r \<in> set (frictions_of v)" by (cases "frictions_of v") auto
  then have "feature_category r \<in> set friction_categories" by (simp add: frictions_of_def)
  then obtain c where "feature_category r = Some c" by (auto simp: friction_categories_def)
  then have "Some c \<in> set (map feature_category (frictions_of v))" using r by force
  then have "c \<in> set (categories (frictions_of v))" by (simp add: categories_def set_dropna)
  then show ?thesis by auto
qed

lemma wins_friction_lines:
  assumes sc: "sorts_by key sc" and "wins_of v = [] \<or> categories (wins_of v) \<noteq> []"
  shows "wins_friction sc v ins =
     Inr (ins
          @ (case top_of sc (categories (wins_of v)) of
               None \<Rightarrow> []
             | Some c \<Rightarrow> [wins_line c (min 3 (length (wins_of v)))])
          @ (case top_of sc (categories (frictions_of v)) of
               None \<Rightarrow> []
             | Some c \<Rightarrow> [friction_line c]))"
proof -
  have w: "(if wins_of v \<noteq> [] then
              bind_res (idxmax (value_counts sc (map feature_category (wins_of v))))
                (\<lambda>c. Inr (ins @ [wins_line c (min 3 (length (wins_of v)))]))
            else Inr ins)
           = Inr (ins @ (case top_of sc (categories (wins_of v)) of
               None \<Rightarrow> []
             | Some c \<Rightarrow> [wins_line c (min 3 (length (wins_of v)))]))"
  proof (cases "wins_of v = []")
    case True
    then show ?thesis by (simp add: categories_def top_of_Nil[OF sc])
  next
    case False
    with assms have "categories (wins_of v) \<noteq> []" by simp
    from top_of_nonempty[OF sc this] False show ?thesis by (auto simp: bind_res_def)
  qed
  have f: "(if frictions_of v \<noteq> [] then
              bind_res (idxmax (value_counts sc (map feature_category (frictions_of v))))
                (\<lambda>c. Inr (ins1 @ [friction_line c]))
            else Inr ins1)
           = Inr (ins1 @ (case top_of sc (categories (frictions_of v)) of
               None \<Rightarrow> []
             | Some c \<Rightarrow> [friction_line c]))" for ins1
  proof (cases "frictions_of v = []")
    case True
    then show ?thesis by (simp add: categories_def top_of_Nil[OF sc])
  next
    case False
    from top_of_nonempty[OF sc frictions_categories[OF False]] False show ?thesis
      by (auto simp: bind_res_def)
  qed
  show ?thesis
    unfolding wins_friction_def wins_select frictions_select Let_def w
    by (simp add: bind_res_def f)
qed

lemma wins_friction_raises:
  assumes sc: "sorts_by key sc" and "wins_of v \<noteq> []" and "categories (wins_of v) = []"
  shows "wins_friction sc v ins = Inl ValueError"
proof -
  have "value_counts sc (map feature_category (wins_of v)) = []"
    using assms(3) by (simp add: value_counts_Nil_iff[OF sc] categories_def)
  then show ?thesis using assms(2)
    by (simp add: wins_friction_def wins_select Let_def bind_res_def idxmax_def)
qed

lemma categories_nonempty:
  assumes "w \<noteq> []" and "\<forall>r\<in>set w. feature_category r \<noteq> None"
  shows "categories w \<noteq> []"
proof -
  from assms(1) obtain r where r: "r \<in> set w" by (cases w) auto
  with assms(2) obtain c where "feature_category r = Some c" by auto
  with r have "Some c \<in> set (map feature_category w)" by force
  then have "c \<in> set (categories w)" by (simp add: categories_def set_dropna)
  then show ?thesis by auto
qed

lemma build_insights_lines:
  assumes sc: "sorts_by key sc" and "v \<noteq> []"
    and "wins_of v = [] \<or> categories (wins_of v) \<noteq> []"
  shows "build_insights sc sr v =
     Inr ((case top_of sc (categories v) of
             None \<Rightarrow> []
           | Some c \<Rightarrow> [focus_line c (safe_pct (count_list (categories v) c) (length v))])
          @ map (\<lambda>p. snapshot_of v p (named_category sc (sub_view v p)))
              (sort (unique (dropna (map person v))))
          @ (if urgent v = [] then []
             else [urgency_line (length (urgent v))
                     (length (filter (\<lambda>r. row_status r = Overdue) (urgent v))),
                   deadlines_line (map deadline_label (take 3 (sr (urgent v))))])
          @ (case top_of sc (categories (wins_of v)) of
               None \<Rightarrow> []
             | Some c \<Rightarrow> [wins_line c (min 3 (length (wins_of v)))])
          @ (case top_of sc (categories (frictions_of v)) of
               None \<Rightarrow> []
             | Some c \<Rightarrow> [friction_line c]))"
proof -
  have "\<forall>p\<in>set (sort (unique (dropna (map person v)))). Some p \<in> person ` set v"
    by (simp add: set_unique set_dropna)
  then have loop: "person_loop sc v (sort (unique (dropna (map person v)))) ins
      = Inr (ins @ map (\<lambda>p. snapshot_of v p (named_category sc (sub_view v p)))
                     (sort (unique (dropna (map person v)))))" for ins
    by (rule person_loop_present[OF sc])
  show ?thesis
    using assms(2)
    by (simp add: build_insights_def bind_res_def overall_focus_lines[OF sc] loop
        urgency_signal_lines wins_friction_lines[OF sc assms(3)])
qed

lemma wins_ok:
  assumes "\<forall>r\<in>set v. feature_category r \<noteq> None"
  shows "wins_of v = [] \<or> categories (wins_of v) \<noteq> []"
proof (cases "wins_of v = []")
  case False
  moreover have "\<forall>r\<in>set (wins_of v). feature_category r \<noteq> None"
    using assms by (simp add: wins_of_def)
  ultimately show ?thesis using categories_nonempty by blast
qed simp

lemma prefix_take: "prefix p l \<Longrightarrow> n \<le> length p \<Longrightarrow> take n l = take n p"
  by (auto simp: prefix_def)

lemma line_starts:
  "take 2 (focus_line c n) = ''Fo''"
  "take 2 (snapshot_line p a b d e f g h) = ''**''"
  "take 2 (urgency_line n k) = ''Ur''"
  "take 2 (deadlines_line ls) = ''Ne''"
  "take 2 (wins_line c n) = ''Wi''"
  "take 2 (friction_line c) = ''Fr''"
  by (simp_all add: focus_line_def snapshot_line_def urgency_line_def deadlines_line_def
      wins_line_def friction_line_def)

lemma snapshot_start: "take 2 (snapshot_of v p c) = ''**''"
  by (simp add: snapshot_of_def Let_def line_starts)

lemma overdue_urgent:
  "filter (\<lambda>r. row_status r = Overdue) (urgent v) = filter (\<lambda>r. row_status r = Overdue) v"
  by (induction v) (auto simp: urgent_def)

lemma parse_dates_topics:
  assumes "keeps_length conv"
  shows "map topic (parse_dates conv rows) = map topic rows"
proof -
  have l: "length (zip (conv (map date rows)) (conv (map due_date rows))) = length rows"
    using assms by (simp add: keeps_length_def)
  have "map topic (parse_dates conv rows)
          = map (\<lambda>x. topic (fst x))
              (zip rows (zip (conv (map date rows)) (conv (map due_date rows))))"
    by (simp add: parse_dates_def set_dates_def case_prod_unfold)
  also have "\<dots> = map topic (map fst
              (zip rows (zip (conv (map date rows)) (conv (map due_date rows)))))"
    by simp
  also have "\<dots> = map topic rows" using l by (simp add: map_fst_zip)
  finally show ?thesis .
qed

lemma load_data_keeps_rows:
  assumes "keeps_length conv" and "xlsx w = Some rows"
  shows "\<exists>df. fst (load_data conv w) = Inr df \<and> length df = length rows
              \<and> map topic df = map topic rows"
proof -
  have "map topic (map (\<lambda>r. with_status r (status t r)) (parse_dates conv rows))
          = map topic rows" for t
    using parse_dates_topics[OF assms(1), of rows] by (simp add: with_status_def comp_def)
  moreover have "length (parse_dates conv rows) = length rows"
    using parse_dates_topics[OF assms(1), of rows] by (metis length_map)
  ultimately show ?thesis
    using assms(2) by (simp add: load_data_def today_def Let_def)
qed

lemma only_stamps_keeps_length: "keeps_length only_stamps"
  by (simp add: keeps_length_def only_stamps_def)

lemma with_status_in_load:
  assumes "fst (load_data conv w) = Inr df" and "r \<in> set df"
  shows "row_status r = status_rule (due_date r) (clock w (reads w))"
  using assms
  by (auto simp: load_data_def today_def Let_def with_status_fields status_is_rule
      split: option.splits)

section \<open>Status derivation\<close>

text \<open>
  C1. The status of a row is the four-branch rule applied to its due date and the
  evaluation instant: missing gives NoDue, a due date before the instant gives Overdue,
  a due date 0 to 7 whole days after it gives DueSoon, anything else OnTrack. Two rows
  with the same due date get the same status at the same instant.
\<close>

theorem status_four_branch:
  "status now r = status_rule (due_date r) now"
  by (rule status_is_rule)

section \<open>Filtering\<close>

text \<open>
  C2. The filter returns exactly the records whose person, category and sentiment are
  each in the selected values, in the order of the dataset (it is a subsequence of the
  dataset); selecting all the distinct values of the three columns returns the dataset.
\<close>

theorem df_filt_exact:
  "df_filt df ps cs ss
     = filter (\<lambda>r. person r \<in> set ps \<and> feature_category r \<in> set cs \<and> sentiment r \<in> set ss) df
   \<and> subseq (df_filt df ps cs ss) df
   \<and> df_filt df (unique (map person df)) (unique (map feature_category df))
         (unique (map sentiment df)) = df"
proof -
  have eq: "df_filt df ps cs ss
     = filter (\<lambda>r. person r \<in> set ps \<and> feature_category r \<in> set cs \<and> sentiment r \<in> set ss) df"
    for ps cs ss
    by (simp add: df_filt_def isin_map mask_and_map select_rows_map conj_assoc)
  have "df_filt df (unique (map person df)) (unique (map feature_category df))
         (unique (map sentiment df)) = df"
    by (simp add: eq set_unique)
  then show ?thesis by (simp add: eq)
qed

section \<open>KPI aggregation\<close>

lemma mask_sum_col_eq_Nil: "mask_sum (col_eq [] x) = 0"
  by (simp add: mask_sum_def col_eq_def)

text \<open>
  C3. The KPI summary holds the number of records, the number of records of each of the
  three sentiment symbols and the numbers of records that are due soon and overdue. It is
  a total function, all zero on the empty view, and when every sentiment is one of the
  three symbols the three sentiment counts add up to the total.
\<close>

theorem kpi_cards_counts:
  "total_topics (kpi_cards v) = length v
   \<and> pos (kpi_cards v) = length (filter (\<lambda>r. sentiment r = ''+'') v)
   \<and> mix (kpi_cards v) = length (filter (\<lambda>r. sentiment r = plus_minus) v)
   \<and> neg (kpi_cards v) = length (filter (\<lambda>r. sentiment r = ''-'') v)
   \<and> due_soon (kpi_cards v) = length (filter (\<lambda>r. row_status r = DueSoon) v)
   \<and> overdue (kpi_cards v) = length (filter (\<lambda>r. row_status r = Overdue) v)
   \<and> kpi_cards [] = \<lparr>total_topics = 0, pos = 0, mix = 0, neg = 0, due_soon = 0, overdue = 0\<rparr>
   \<and> ((\<forall>r\<in>set v. sentiment r = ''+'' \<or> sentiment r = plus_minus \<or> sentiment r = ''-'')
        \<longrightarrow> pos (kpi_cards v) + mix (kpi_cards v) + neg (kpi_cards v)
             = total_topics (kpi_cards v))"
proof -
  have "(\<forall>r\<in>set v. sentiment r = ''+'' \<or> sentiment r = plus_minus \<or> sentiment r = ''-'')
        \<longrightarrow> length (filter (\<lambda>r. sentiment r = ''+'') v)
            + length (filter (\<lambda>r. sentiment r = plus_minus) v)
            + length (filter (\<lambda>r. sentiment r = ''-'') v) = length v"
    by (induction v) (auto simp: plus_minus_def)
  then show ?thesis
    by (simp add: kpi_cards_def col_eq_map mask_sum_map mask_sum_col_eq_Nil)
qed

theorem kpi_cards_counts_witness:
  "pos (kpi_cards ex_view) + mix (kpi_cards ex_view) + neg (kpi_cards ex_view) = 3
   \<and> kpi_cards ex_view
       = \<lparr>total_topics = 3, pos = 1, mix = 1, neg = 1, due_soon = 1, overdue = 1\<rparr>"
proof -
  have h: "\<forall>r\<in>set ex_view. sentiment r = ''+'' \<or> sentiment r = plus_minus \<or> sentiment r = ''-''"
    by (simp add: ex_view_def mk_row_def)
  have "total_topics (kpi_cards ex_view) = 3"
    using kpi_cards_counts[of ex_view] by (simp add: ex_view_def)
  moreover have "kpi_cards ex_view
       = \<lparr>total_topics = 3, pos = 1, mix = 1, neg = 1, due_soon = 1, overdue = 1\<rparr>"
    using kpi_cards_counts[of ex_view] by (simp add: ex_view_def mk_row_def plus_minus_def)
  ultimately show ?thesis using kpi_cards_counts[of ex_view] h by simp
qed

section \<open>The empty view\<close>

text \<open>
  C4. On the empty view the insight generator returns the single line
  \<^verbatim>\<open>No data under current filters.\<close> and nothing else.
\<close>

theorem build_insights_empty:
  "build_insights sort_counts sort_rows [] = Inr [''No data under current filters.'']"
  by (simp add: build_insights_def)

section \<open>Lookup\<close>

lemma find_Some_decomp:
  "find P xs = Some x \<longleftrightarrow> (\<exists>pre post. xs = pre @ x # post \<and> P x \<and> (\<forall>y\<in>set pre. \<not> P y))"
proof (induction xs)
  case Nil
  show ?case by simp
next
  case (Cons a xs)
  show ?case
  proof (cases "P a")
    case True
    have "(\<exists>pre post. a # xs = pre @ x # post \<and> P x \<and> (\<forall>y\<in>set pre. \<not> P y)) \<longleftrightarrow> a = x"
    proof
      assume "\<exists>pre post. a # xs = pre @ x # post \<and> P x \<and> (\<forall>y\<in>set pre. \<not> P y)"
      then obtain pre post where d: "a # xs = pre @ x # post" "\<forall>y\<in>set pre. \<not> P y" by blast
      show "a = x" using d True by (cases pre) auto
    next
      assume "a = x"
      then have "a # xs = [] @ x # xs \<and> P x \<and> (\<forall>y\<in>set []. \<not> P y)" using True by simp
      then show "\<exists>pre post. a # xs = pre @ x # post \<and> P x \<and> (\<forall>y\<in>set pre. \<not> P y)" by blast
    qed
    then show ?thesis using True by simp
  next
    case False
    have "(\<exists>pre post. a # xs = pre @ x # post \<and> P x \<and> (\<forall>y\<in>set pre. \<not> P y))
          \<longleftrightarrow> (\<exists>pre post. xs = pre @ x # post \<and> P x \<and> (\<forall>y\<in>set pre. \<not> P y))"
    proof
      assume "\<exists>pre post. a # xs = pre @ x # post \<and> P x \<and> (\<forall>y\<in>set pre. \<not> P y)"
      then obtain pre post where d: "a # xs = pre @ x # post" "P x" "\<forall>y\<in>set pre. \<not> P y" by blast
      then obtain pre' where "pre = a # pre'" using False by (cases pre) auto
      then have "xs = pre' @ x # post \<and> P x \<and> (\<forall>y\<in>set pre'. \<not> P y)" using d by auto
      then show "\<exists>pre post. xs = pre @ x # post \<and> P x \<and> (\<forall>y\<in>set pre. \<not> P y)" by blast
    next
      assume "\<exists>pre post. xs = pre @ x # post \<and> P x \<and> (\<forall>y\<in>set pre. \<not> P y)"
      then obtain pre post where d: "xs = pre @ x # post" "P x" "\<forall>y\<in>set pre. \<not> P y" by blast
      then have "a # xs = (a # pre) @ x # post \<and> P x \<and> (\<forall>y\<in>set (a # pre). \<not> P y)"
        using False by simp
      then show "\<exists>pre post. a # xs = pre @ x # post \<and> P x \<and> (\<forall>y\<in>set pre. \<not> P y)" by blast
    qed
    then show ?thesis using False Cons.IH by simp
  qed
qed

lemma sel_row_find:
  "sel_row v k = (case find (\<lambda>r. topic r = k) v of None \<Rightarrow> Inl IndexError | Some r \<Rightarrow> Inr r)"
  by (simp add: sel_row_def col_eq_map select_rows_map iloc0_def find_filter split: list.splits)

text \<open>
  C9. Lookup returns a record exactly when it is the first record in view order whose
  topic is the key (also when several records share the topic), and it fails, with
  IndexError and no other error, exactly when no record of the view has the key as topic.
\<close>

theorem sel_row_first_match:
  "(\<forall>r. sel_row v k = Inr r \<longleftrightarrow>
        (\<exists>pre post. v = pre @ r # post \<and> topic r = k \<and> (\<forall>x\<in>set pre. topic x \<noteq> k)))
   \<and> (sel_row v k = Inl IndexError \<longleftrightarrow> (\<forall>r\<in>set v. topic r \<noteq> k))
   \<and> (\<forall>e. sel_row v k = Inl e \<longrightarrow> e = IndexError)"
proof -
  have a: "sel_row v k = Inr r \<longleftrightarrow> find (\<lambda>r. topic r = k) v = Some r" for r
    by (simp add: sel_row_find split: option.splits)
  have b: "sel_row v k = Inl e \<longleftrightarrow> find (\<lambda>r. topic r = k) v = None \<and> e = IndexError" for e
    by (auto simp add: sel_row_find split: option.splits)
  show ?thesis
    by (auto simp add: a b find_Some_decomp find_None_iff)
qed

theorem sel_row_first_match_witness:
  "sel_row ex_tie ''Roadmap''
     = Inr (mk_row None (Some ''Planning'') ''+'' ''Roadmap'' (Some (day 19730)) DueSoon)
   \<and> sel_row ex_tie ''Budget'' = Inl IndexError"
proof -
  have "ex_tie = [mk_row (Some ''Bob'') (Some ''Hiring'') ''-'' ''Backfill'' None NoDue]
          @ mk_row None (Some ''Planning'') ''+'' ''Roadmap'' (Some (day 19730)) DueSoon
          # [mk_row (Some ''Alice'') (Some ''Planning'') ''?'' ''Roadmap'' (Some (day 19730)) DueSoon,
      mk_row (Some ''Alice'') (Some ''Hiring'') ''+'' ''Interviews'' (Some (day 19800)) OnTrack]
        \<and> topic (mk_row None (Some ''Planning'') ''+'' ''Roadmap'' (Some (day 19730)) DueSoon) = ''Roadmap''
        \<and> (\<forall>x\<in>set [mk_row (Some ''Bob'') (Some ''Hiring'') ''-'' ''Backfill'' None NoDue]. topic x \<noteq> ''Roadmap'')"
    by (simp add: ex_tie_def mk_row_def)
  then have 1: "sel_row ex_tie ''Roadmap''
     = Inr (mk_row None (Some ''Planning'') ''+'' ''Roadmap'' (Some (day 19730)) DueSoon)"
    using sel_row_first_match[of ex_tie "''Roadmap''"] by blast
  have "\<forall>r\<in>set ex_tie. topic r \<noteq> ''Budget''" by (simp add: ex_tie_def mk_row_def)
  then have 2: "sel_row ex_tie ''Budget'' = Inl IndexError"
    using sel_row_first_match[of ex_tie "''Budget''"] by blast
  show ?thesis using 1 2 by simp
qed

section \<open>Rule 1: overall focus\<close>

text \<open>
  C5, as amended. For every non-empty view whose categories are all present, the first
  line is \<^verbatim>\<open>Focus is on **<category>** (<pct>% of topics).\<close>, the category set in Markdown
  bold, where the category is one of highest count in the view and the percentage is
  \<open>safe_pct\<close> of that count and the number of records: Python's
  \<^verbatim>\<open>round(100 * count / total)\<close>, and 0 for a total of 0. Which of several categories
  tied for the highest count is named is left to the sort of pandas; the script does not
  fix it.
\<close>

theorem overall_focus_top_category:
  assumes "sorts_by count_key sort_counts" and "v \<noteq> []"
    and "\<forall>r\<in>set v. feature_category r \<noteq> None"
  shows "\<exists>c rest. top_category (categories v) c
           \<and> build_insights sort_counts sort_rows v
               = Inr (focus_line c (safe_pct (count_list (categories v) c) (length v)) # rest)"
proof -
  have "categories v \<noteq> []" using assms(2,3) by (rule categories_nonempty)
  from top_of_nonempty[OF assms(1) this] obtain c where
    c: "top_of sort_counts (categories v) = Some c" "top_category (categories v) c" by blast
  have "\<exists>rest. build_insights sort_counts sort_rows v
               = Inr (focus_line c (safe_pct (count_list (categories v) c) (length v)) # rest)"
    using build_insights_lines[OF assms(1,2) wins_ok[OF assms(3)], of sort_rows] c(1) by simp
  with c(2) show ?thesis by blast
qed

theorem overall_focus_top_category_witness:
  "\<exists>rest. build_insights (flip_ties count_key) (flip_ties due_key) ex_view
     = Inr (''Focus is on **Process / Quality Metrics** (67% of topics).'' # rest)"
proof -
  have h1: "ex_view \<noteq> []" by (simp add: ex_view_def)
  have h2: "\<forall>r\<in>set ex_view. feature_category r \<noteq> None" by (simp add: ex_view_def mk_row_def)
  from overall_focus_top_category[OF flip_ties_sorts h1 h2, of "flip_ties due_key"]
  obtain c rest where
    c: "top_category (categories ex_view) c" and
    b: "build_insights (flip_ties count_key) (flip_ties due_key) ex_view
          = Inr (focus_line c (safe_pct (count_list (categories ex_view) c) (length ex_view))
                 # rest)"
    by blast
  have cats: "categories ex_view
     = [''Process / Quality Metrics'', ''Process / Quality Metrics'', ''Projects / Execution'']"
    by code_simp
  have "c = ''Process / Quality Metrics''"
    using c unfolding top_category_def cats by auto
  moreover have
    "focus_line ''Process / Quality Metrics''
       (safe_pct (count_list (categories ex_view) ''Process / Quality Metrics'') (length ex_view))
       = ''Focus is on **Process / Quality Metrics** (67% of topics).''" by code_simp
  ultimately show ?thesis using b by simp
qed

text \<open>
  C5 as stated fails. In \<open>ex_tie\<close> Hiring and Planning have 2 of 4 records each and
  Hiring comes first. The line without the bold markers is not emitted under either
  sort, and under the sort that flips ties the line names Planning, not the category met
  first.
\<close>

theorem overall_focus_counterexample:
  "dominant (categories ex_tie) = Some ''Hiring''
   \<and> ''Focus is on Hiring (50% of topics).''
       \<notin> set (emitted (build_insights (keep_ties count_key) (keep_ties due_key) ex_tie))
   \<and> ''Focus is on **Hiring** (50% of topics).''
       \<in> set (emitted (build_insights (keep_ties count_key) (keep_ties due_key) ex_tie))
   \<and> ''Focus is on Hiring (50% of topics).''
       \<notin> set (emitted (build_insights (flip_ties count_key) (keep_ties due_key) ex_tie))
   \<and> ''Focus is on **Hiring** (50% of topics).''
       \<notin> set (emitted (build_insights (flip_ties count_key) (keep_ties due_key) ex_tie))
   \<and> ''Focus is on **Planning** (50% of topics).''
       \<in> set (emitted (build_insights (flip_ties count_key) (keep_ties due_key) ex_tie))"
  by code_simp

section \<open>Rule 2: per-person snapshots\<close>

text \<open>
  C6, as amended. For every non-empty view whose categories are all present, the lines
  after the first are one snapshot per distinct present person, the persons in strictly
  ascending order whatever the order of the records; each is
  \<^verbatim>\<open>**<person>**: mainly **<category>** (<pct>%). Sentiment -> +:<pos>, +-:<mix>, -:<neg> (**<rate>% positive**). Urgent items: **<urgent>**.\<close>
  (with the arrow and the plus-minus sign of the script) for a category of highest count
  among the person's records and its share, the person's three sentiment counts, the
  share of positives and the number of the person's records that are due soon or overdue.
  Which of several categories tied for the highest count is named is left to the sort of
  pandas. No other line of the output starts with the two asterisks of a snapshot.
\<close>

theorem snapshots_sorted_persons:
  assumes "sorts_by count_key sort_counts" and "v \<noteq> []"
    and "\<forall>r\<in>set v. feature_category r \<noteq> None"
  shows "\<exists>ps lines first rest.
           sorted_wrt (<) ps \<and> set ps = {p. Some p \<in> person ` set v}
           \<and> build_insights sort_counts sort_rows v = Inr (first # lines @ rest)
           \<and> list_all2 (\<lambda>p l. \<exists>c. top_category (categories (sub_view v p)) c
                                  \<and> l = snapshot_of v p c) ps lines
           \<and> \<not> prefix ''**'' first \<and> (\<forall>l\<in>set rest. \<not> prefix ''**'' l)"
proof -
  have "categories v \<noteq> []" using assms(2,3) by (rule categories_nonempty)
  from top_of_nonempty[OF assms(1) this] obtain c where
    c: "top_of sort_counts (categories v) = Some c" by blast
  define ps where "ps = sort (unique (dropna (map person v)))"
  define lines where
    "lines = map (\<lambda>p. snapshot_of v p (named_category sort_counts (sub_view v p))) ps"
  define first where "first = focus_line c (safe_pct (count_list (categories v) c) (length v))"
  define rest where "rest =
         (if urgent v = [] then []
             else [urgency_line (length (urgent v))
                     (length (filter (\<lambda>r. row_status r = Overdue) (urgent v))),
                   deadlines_line (map deadline_label (take 3 (sort_rows (urgent v))))])
          @ (case top_of sort_counts (categories (wins_of v)) of
               None \<Rightarrow> []
             | Some c \<Rightarrow> [wins_line c (min 3 (length (wins_of v)))])
          @ (case top_of sort_counts (categories (frictions_of v)) of
               None \<Rightarrow> []
             | Some c \<Rightarrow> [friction_line c])"
  have b: "build_insights sort_counts sort_rows v = Inr (first # lines @ rest)"
    using build_insights_lines[OF assms(1,2) wins_ok[OF assms(3)], of sort_rows] c
    by (simp add: ps_def lines_def first_def rest_def)
  have ps: "sorted_wrt (<) ps \<and> set ps = {p. Some p \<in> person ` set v}"
    using persons_sorted[of "map person v"] by (simp add: ps_def)
  have "\<exists>c. top_category (categories (sub_view v p)) c
            \<and> snapshot_of v p (named_category sort_counts (sub_view v p)) = snapshot_of v p c"
    if "p \<in> set ps" for p
  proof -
    have "Some p \<in> person ` set v" using that ps by simp
    then have "sub_view v p \<noteq> []" by (rule sub_view_nonempty)
    moreover have "\<forall>r\<in>set (sub_view v p). feature_category r \<noteq> None"
      using assms(3) by (simp add: sub_view_def)
    ultimately have "categories (sub_view v p) \<noteq> []" by (rule categories_nonempty)
    from top_of_nonempty[OF assms(1) this] obtain d where
      "top_of sort_counts (categories (sub_view v p)) = Some d"
      "top_category (categories (sub_view v p)) d" by blast
    then show ?thesis by (auto simp: named_category_def)
  qed
  then have la: "list_all2 (\<lambda>p l. \<exists>c. top_category (categories (sub_view v p)) c
                                  \<and> l = snapshot_of v p c) ps lines"
    by (simp add: lines_def list_all2_map2 list_all2_same)
  have f: "\<not> prefix ''**'' first"
    using prefix_take[of "''**''" first 2] by (auto simp: first_def line_starts)
  have "\<forall>l\<in>set rest. take 2 l \<noteq> ''**''"
    by (auto simp: rest_def line_starts split: option.splits)
  then have r: "\<forall>l\<in>set rest. \<not> prefix ''**'' l"
    using prefix_take[of "''**''" _ 2] by auto
  show ?thesis using ps b la f r by blast
qed

theorem snapshots_sorted_persons_witness:
  "\<exists>first rest.
     build_insights (flip_ties count_key) (flip_ties due_key) ex_pair =
       Inr (first
            # [''**Alice**: mainly **Planning** (100%). Sentiment '' @ arrow @ '' +:1, ''
               @ plus_minus @ '':0, -:0 (**100% positive**). Urgent items: **1**.'',
               ''**Bob**: mainly **Hiring** (100%). Sentiment '' @ arrow @ '' +:0, ''
               @ plus_minus @ '':0, -:1 (**0% positive**). Urgent items: **0**.'']
            @ rest)"
proof -
  have h1: "ex_pair \<noteq> []" by (simp add: ex_pair_def)
  have h2: "\<forall>r\<in>set ex_pair. feature_category r \<noteq> None" by (simp add: ex_pair_def mk_row_def)
  from snapshots_sorted_persons[OF flip_ties_sorts h1 h2, of "flip_ties due_key"]
  obtain ps lines first rest where
    s: "sorted_wrt (<) ps" and st: "set ps = {p. Some p \<in> person ` set ex_pair}" and
    b: "build_insights (flip_ties count_key) (flip_ties due_key) ex_pair
          = Inr (first # lines @ rest)" and
    la: "list_all2 (\<lambda>p l. \<exists>c. top_category (categories (sub_view ex_pair p)) c
                                  \<and> l = snapshot_of ex_pair p c) ps lines"
    by blast
  have "{p. Some p \<in> person ` set ex_pair} = set [''Alice'', ''Bob'']"
    by (auto simp: ex_pair_def mk_row_def)
  moreover have "sorted [''Alice'', ''Bob''] \<and> distinct [''Alice'', ''Bob'']" by code_simp
  ultimately have "ps = [''Alice'', ''Bob'']"
    using s st by (intro sorted_distinct_set_unique) (simp_all add: strict_sorted_iff)
  with la obtain la lb ca cb where
    l: "lines = [la, lb]" and
    ca: "top_category (categories (sub_view ex_pair ''Alice'')) ca"
        "la = snapshot_of ex_pair ''Alice'' ca" and
    cb: "top_category (categories (sub_view ex_pair ''Bob'')) cb"
        "lb = snapshot_of ex_pair ''Bob'' cb"
    by (auto simp: list_all2_Cons1)
  have "categories (sub_view ex_pair ''Alice'') = [''Planning'']" by code_simp
  then have "ca = ''Planning''" using ca(1) by (simp add: top_category_def)
  moreover have "snapshot_of ex_pair ''Alice'' ''Planning''
      = ''**Alice**: mainly **Planning** (100%). Sentiment '' @ arrow @ '' +:1, ''
               @ plus_minus @ '':0, -:0 (**100% positive**). Urgent items: **1**.''"
    by code_simp
  moreover have "categories (sub_view ex_pair ''Bob'') = [''Hiring'']" by code_simp
  then have "cb = ''Hiring''" using cb(1) by (simp add: top_category_def)
  moreover have "snapshot_of ex_pair ''Bob'' ''Hiring''
      = ''**Bob**: mainly **Hiring** (100%). Sentiment '' @ arrow @ '' +:0, ''
               @ plus_minus @ '':0, -:1 (**0% positive**). Urgent items: **0**.''"
    by code_simp
  ultimately have "lines
     = [''**Alice**: mainly **Planning** (100%). Sentiment '' @ arrow @ '' +:1, ''
               @ plus_minus @ '':0, -:0 (**100% positive**). Urgent items: **1**.'',
               ''**Bob**: mainly **Hiring** (100%). Sentiment '' @ arrow @ '' +:0, ''
               @ plus_minus @ '':0, -:1 (**0% positive**). Urgent items: **0**.'']"
    using l ca(2) cb(2) by simp
  then show ?thesis using b by blast
qed

text \<open>
  C6 as stated fails. The snapshot of Alice in \<open>ex_tie\<close>, whose two records have the
  categories Planning and Hiring in this order, is not emitted in the form without bold
  markers under either sort, and under the sort that flips ties it names Hiring.
\<close>

theorem snapshots_counterexample:
  "dominant (categories (sub_view ex_tie ''Alice'')) = Some ''Planning''
   \<and> ''Alice: mainly Planning (50%). Sentiment '' @ arrow @ '' +:1, '' @ plus_minus
       @ '':0, -:0 (50% positive). Urgent items: 1.''
       \<notin> set (emitted (build_insights (keep_ties count_key) (keep_ties due_key) ex_tie))
   \<and> ''**Alice**: mainly **Planning** (50%). Sentiment '' @ arrow @ '' +:1, '' @ plus_minus
       @ '':0, -:0 (**50% positive**). Urgent items: **1**.''
       \<in> set (emitted (build_insights (keep_ties count_key) (keep_ties due_key) ex_tie))
   \<and> ''Alice: mainly Planning (50%). Sentiment '' @ arrow @ '' +:1, '' @ plus_minus
       @ '':0, -:0 (50% positive). Urgent items: 1.''
       \<notin> set (emitted (build_insights (flip_ties count_key) (keep_ties due_key) ex_tie))
   \<and> ''**Alice**: mainly **Hiring** (50%). Sentiment '' @ arrow @ '' +:1, '' @ plus_minus
       @ '':0, -:0 (**50% positive**). Urgent items: **1**.''
       \<in> set (emitted (build_insights (flip_ties count_key) (keep_ties due_key) ex_tie))"
  by code_simp

section \<open>Rule 3: urgency signal\<close>

text \<open>
  C7, as amended. For every non-empty view whose categories are all present: when some
  record is due soon or overdue, the output holds, after the focus and snapshot lines,
  the line \<^verbatim>\<open>Urgency: <n> items require attention (**<k> overdue**).\<close> for the number n of
  such records and the number k of overdue records, followed by the line
  \<^verbatim>\<open>Next deadlines -> \<close> and the labels \<^verbatim>\<open><date> - <person>: *<topic>*\<close>, joined by
  \<^verbatim>\<open> | \<close>, of the first three (or fewer, when there are fewer) of these records in an
  ascending order of due date. The order of records of equal due date is left to the sort
  of pandas. When no record is due soon or overdue, neither line is there. No other line
  starts like these two.
\<close>

theorem urgency_lines:
  assumes "sorts_by count_key sort_counts" and "sorts_by due_key sort_rows" and "v \<noteq> []"
    and "\<forall>r\<in>set v. feature_category r \<noteq> None"
  shows "\<exists>sorted_due front after.
           mset sorted_due = mset (urgent v) \<and> sorted (map due_key sorted_due)
           \<and> build_insights sort_counts sort_rows v =
               Inr (front
                    @ (if urgent v = [] then []
                       else [urgency_line (length (urgent v))
                               (length (filter (\<lambda>r. row_status r = Overdue) v)),
                             deadlines_line (map deadline_label (take 3 sorted_due))])
                    @ after)
           \<and> (\<forall>l\<in>set (front @ after).
                  \<not> prefix ''Urgency: '' l \<and> \<not> prefix ''Next deadlines '' l)"
proof -
  define front where "front =
     (case top_of sort_counts (categories v) of
             None \<Rightarrow> []
           | Some c \<Rightarrow> [focus_line c (safe_pct (count_list (categories v) c) (length v))])
          @ map (\<lambda>p. snapshot_of v p (named_category sort_counts (sub_view v p)))
              (sort (unique (dropna (map person v))))"
  define after where "after =
           (case top_of sort_counts (categories (wins_of v)) of
               None \<Rightarrow> []
             | Some c \<Rightarrow> [wins_line c (min 3 (length (wins_of v)))])
          @ (case top_of sort_counts (categories (frictions_of v)) of
               None \<Rightarrow> []
             | Some c \<Rightarrow> [friction_line c])"
  have s: "mset (sort_rows (urgent v)) = mset (urgent v)
           \<and> sorted (map due_key (sort_rows (urgent v)))"
    using assms(2) by (simp add: sorts_by_def)
  have b: "build_insights sort_counts sort_rows v =
             Inr (front
                  @ (if urgent v = [] then []
                     else [urgency_line (length (urgent v))
                             (length (filter (\<lambda>r. row_status r = Overdue) v)),
                           deadlines_line
                             (map deadline_label (take 3 (sort_rows (urgent v))))])
                  @ after)"
    using build_insights_lines[OF assms(1,3) wins_ok[OF assms(4)], of sort_rows]
    by (simp add: front_def after_def overdue_urgent)
  have "\<forall>l\<in>set (front @ after). take 2 l \<noteq> ''Ur'' \<and> take 2 l \<noteq> ''Ne''"
    by (auto simp: front_def after_def line_starts snapshot_start split: option.splits)
  then have "\<forall>l\<in>set (front @ after).
                  \<not> prefix ''Urgency: '' l \<and> \<not> prefix ''Next deadlines '' l"
    using prefix_take[of "''Urgency: ''" _ 2] prefix_take[of "''Next deadlines ''" _ 2]
    by auto
  with s b show ?thesis by blast
qed

theorem urgency_lines_witness:
  "\<exists>front after.
     build_insights (flip_ties count_key) (flip_ties due_key) ex_view =
       Inr (front
            @ [''Urgency: 2 items require attention (**1 overdue**).'',
               ''Next deadlines '' @ arrow @ '' 2023-12-30 '' @ en_dash @ '' Alice: *Audit* | ''
               @ ''2024-01-04 '' @ en_dash @ '' Alice: *Dashboards*'']
            @ after)"
proof -
  have h1: "ex_view \<noteq> []" by (simp add: ex_view_def)
  have h2: "\<forall>r\<in>set ex_view. feature_category r \<noteq> None" by (simp add: ex_view_def mk_row_def)
  from urgency_lines[OF flip_ties_sorts flip_ties_sorts h1 h2]
  obtain sorted_due front after where
    m: "mset sorted_due = mset (urgent ex_view)" and
    s: "sorted (map due_key sorted_due)" and
    b: "build_insights (flip_ties count_key) (flip_ties due_key) ex_view =
               Inr (front
                    @ (if urgent ex_view = [] then []
                       else [urgency_line (length (urgent ex_view))
                               (length (filter (\<lambda>r. row_status r = Overdue) ex_view)),
                             deadlines_line (map deadline_label (take 3 sorted_due))])
                    @ after)"
    by blast
  define audit where "audit = mk_row (Some ''Alice'') (Some ''Process / Quality Metrics'') ''-''
       ''Audit'' (Some (day 19721)) Overdue"
  define dash where "dash = mk_row (Some ''Alice'') (Some ''Process / Quality Metrics'') ''+''
       ''Dashboards'' (Some (day 19726)) DueSoon"
  have u: "urgent ex_view = [dash, audit]"
    by (simp add: urgent_def ex_view_def mk_row_def dash_def audit_def)
  have "mset sorted_due = mset [audit, dash]" using m u by simp
  moreover have "sorted (map due_key [audit, dash])"
    by (simp add: due_key_def audit_def dash_def mk_row_def day_def ns_per_day_def)
  moreover have "inj_on due_key (set [audit, dash])"
    by (simp add: due_key_def audit_def dash_def mk_row_def day_def ns_per_day_def)
  ultimately have sd: "sorted_due = [audit, dash]"
    using s by (intro sorted_keys_unique[of _ _ due_key])
  have e: "(if urgent ex_view = [] then []
                       else [urgency_line (length (urgent ex_view))
                               (length (filter (\<lambda>r. row_status r = Overdue) ex_view)),
                             deadlines_line (map deadline_label (take 3 sorted_due))])
     = [''Urgency: 2 items require attention (**1 overdue**).'',
               ''Next deadlines '' @ arrow @ '' 2023-12-30 '' @ en_dash @ '' Alice: *Audit* | ''
               @ ''2024-01-04 '' @ en_dash @ '' Alice: *Dashboards*'']"
    unfolding sd audit_def dash_def by code_simp
  show ?thesis by (intro exI) (rule b[unfolded e])
qed

text \<open>
  C7 as stated fails. In \<open>ex_due\<close> the urgency line carries bold markers, and the
  deadlines line has a prefix, spaces around the dash and emphasis markers around the
  topics; Cara and Bob are due on the same day, Cara first, and under the sort that flips
  ties the third label is Bob's.
\<close>

theorem urgency_counterexample:
  "''Urgency: 4 items require attention (2 overdue).''
     \<notin> set (emitted (build_insights (keep_ties count_key) (keep_ties due_key) ex_due))
   \<and> ''2023-12-30'' @ en_dash @ ''Alice: Audit | 2023-12-31'' @ en_dash @ ''Dan: Offer | 2024-01-03''
       @ en_dash @ ''Cara: Budget''
     \<notin> set (emitted (build_insights (keep_ties count_key) (keep_ties due_key) ex_due))
   \<and> ''Urgency: 4 items require attention (**2 overdue**).''
     \<in> set (emitted (build_insights (keep_ties count_key) (keep_ties due_key) ex_due))
   \<and> ''Next deadlines '' @ arrow @ '' 2023-12-30 '' @ en_dash @ '' Alice: *Audit* | 2023-12-31 ''
       @ en_dash @ '' Dan: *Offer* | 2024-01-03 '' @ en_dash @ '' Cara: *Budget*''
     \<in> set (emitted (build_insights (keep_ties count_key) (keep_ties due_key) ex_due))
   \<and> ''Next deadlines '' @ arrow @ '' 2023-12-30 '' @ en_dash @ '' Alice: *Audit* | 2023-12-31 ''
       @ en_dash @ '' Dan: *Offer* | 2024-01-03 '' @ en_dash @ '' Bob: *Backfill*''
     \<in> set (emitted (build_insights (keep_ties count_key) (flip_ties due_key) ex_due))"
  by code_simp

section \<open>Rule 4: wins and friction\<close>

text \<open>
  C8, as amended. For every non-empty view whose categories are all present, the output
  ends with the wins line, present exactly when some record has sentiment \<^verbatim>\<open>+\<close>, and then
  the friction line, present exactly when some record has another sentiment and one of the
  categories \<^verbatim>\<open>Risk / Incident Management\<close>, \<^verbatim>\<open>Process / Quality Metrics\<close>,
  \<^verbatim>\<open>Projects / Execution\<close> (written with spaces around the slash). The lines are
  \<^verbatim>\<open>Wins cluster in **<category>** (e.g., <min(3, number of wins)> recent positives).\<close> and
  \<^verbatim>\<open>Friction hotspots: **<category>** (prioritize coaching/unblocking).\<close>, each for a
  category of highest count among its records; which of several tied categories is named
  is left to the sort of pandas. No earlier line starts like these two.
\<close>

theorem wins_and_friction_lines:
  assumes "sorts_by count_key sort_counts" and "v \<noteq> []"
    and "\<forall>r\<in>set v. feature_category r \<noteq> None"
  shows "\<exists>front w f.
           build_insights sort_counts sort_rows v = Inr (front @ w @ f)
           \<and> (\<forall>l\<in>set front.
                  \<not> prefix ''Wins cluster in '' l \<and> \<not> prefix ''Friction hotspots: '' l)
           \<and> (wins_of v = [] \<longrightarrow> w = [])
           \<and> (wins_of v \<noteq> [] \<longrightarrow>
                (\<exists>c. top_category (categories (wins_of v)) c
                     \<and> w = [wins_line c (min 3 (length (wins_of v)))]))
           \<and> (frictions_of v = [] \<longrightarrow> f = [])
           \<and> (frictions_of v \<noteq> [] \<longrightarrow>
                (\<exists>c. top_category (categories (frictions_of v)) c
                     \<and> f = [friction_line c]))"
proof -
  define front where "front =
     (case top_of sort_counts (categories v) of
             None \<Rightarrow> []
           | Some c \<Rightarrow> [focus_line c (safe_pct (count_list (categories v) c) (length v))])
          @ map (\<lambda>p. snapshot_of v p (named_category sort_counts (sub_view v p)))
              (sort (unique (dropna (map person v))))
          @ (if urgent v = [] then []
             else [urgency_line (length (urgent v))
                     (length (filter (\<lambda>r. row_status r = Overdue) (urgent v))),
                   deadlines_line (map deadline_label (take 3 (sort_rows (urgent v))))])"
  define w where "w = (case top_of sort_counts (categories (wins_of v)) of
               None \<Rightarrow> []
             | Some c \<Rightarrow> [wins_line c (min 3 (length (wins_of v)))])"
  define f where "f = (case top_of sort_counts (categories (frictions_of v)) of
               None \<Rightarrow> []
             | Some c \<Rightarrow> [friction_line c])"
  have "build_insights sort_counts sort_rows v = Inr (front @ w @ f)"
    using build_insights_lines[OF assms(1,2) wins_ok[OF assms(3)], of sort_rows]
    by (simp add: front_def w_def f_def)
  moreover have "\<forall>l\<in>set front. take 2 l \<noteq> ''Wi'' \<and> take 2 l \<noteq> ''Fr''"
    by (auto simp: front_def line_starts snapshot_start split: option.splits)
  then have "\<forall>l\<in>set front.
                  \<not> prefix ''Wins cluster in '' l \<and> \<not> prefix ''Friction hotspots: '' l"
    using prefix_take[of "''Wins cluster in ''" _ 2] prefix_take[of "''Friction hotspots: ''" _ 2]
    by auto
  moreover have "wins_of v = [] \<longrightarrow> w = []"
    by (simp add: w_def categories_def top_of_Nil[OF assms(1)])
  moreover have "wins_of v \<noteq> [] \<longrightarrow>
                (\<exists>c. top_category (categories (wins_of v)) c
                     \<and> w = [wins_line c (min 3 (length (wins_of v)))])"
  proof
    assume "wins_of v \<noteq> []"
    then have "categories (wins_of v) \<noteq> []" using wins_ok[OF assms(3)] by simp
    from top_of_nonempty[OF assms(1) this] show
      "\<exists>c. top_category (categories (wins_of v)) c
           \<and> w = [wins_line c (min 3 (length (wins_of v)))]"
      by (auto simp: w_def)
  qed
  moreover have "frictions_of v = [] \<longrightarrow> f = []"
    by (simp add: f_def categories_def top_of_Nil[OF assms(1)])
  moreover have "frictions_of v \<noteq> [] \<longrightarrow>
                (\<exists>c. top_category (categories (frictions_of v)) c \<and> f = [friction_line c])"
  proof
    assume "frictions_of v \<noteq> []"
    then have "categories (frictions_of v) \<noteq> []" by (rule frictions_categories)
    from top_of_nonempty[OF assms(1) this] show
      "\<exists>c. top_category (categories (frictions_of v)) c \<and> f = [friction_line c]"
      by (auto simp: f_def)
  qed
  ultimately show ?thesis by blast
qed

theorem wins_and_friction_lines_witness:
  "\<exists>front.
     build_insights (flip_ties count_key) (flip_ties due_key) ex_wins =
       Inr (front
            @ [''Wins cluster in **Planning** (e.g., 1 recent positives).'']
            @ [''Friction hotspots: **Process / Quality Metrics** (prioritize coaching/unblocking).''])"
proof -
  have h1: "ex_wins \<noteq> []" by (simp add: ex_wins_def)
  have h2: "\<forall>r\<in>set ex_wins. feature_category r \<noteq> None" by (simp add: ex_wins_def mk_row_def)
  from wins_and_friction_lines[OF flip_ties_sorts h1 h2, of "flip_ties due_key"]
  obtain front w f where
    b: "build_insights (flip_ties count_key) (flip_ties due_key) ex_wins = Inr (front @ w @ f)"
    and w: "wins_of ex_wins \<noteq> [] \<longrightarrow>
                (\<exists>c. top_category (categories (wins_of ex_wins)) c
                     \<and> w = [wins_line c (min 3 (length (wins_of ex_wins)))])"
    and f: "frictions_of ex_wins \<noteq> [] \<longrightarrow>
                (\<exists>c. top_category (categories (frictions_of ex_wins)) c
                     \<and> f = [friction_line c])"
    by blast
  have wc: "categories (wins_of ex_wins) = [''Planning'']" by code_simp
  have "wins_of ex_wins \<noteq> []" by code_simp
  with w obtain c where c: "top_category (categories (wins_of ex_wins)) c"
    "w = [wins_line c (min 3 (length (wins_of ex_wins)))]" by blast
  have "c = ''Planning''" using c(1) unfolding wc by (simp add: top_category_def)
  moreover have "wins_line ''Planning'' (min 3 (length (wins_of ex_wins)))
      = ''Wins cluster in **Planning** (e.g., 1 recent positives).''"
    by code_simp
  ultimately have w': "w = [''Wins cluster in **Planning** (e.g., 1 recent positives).'']"
    using c(2) by simp
  have fc: "categories (frictions_of ex_wins)
      = [''Process / Quality Metrics'', ''Risk / Incident Management'',
         ''Process / Quality Metrics'']" by code_simp
  have "frictions_of ex_wins \<noteq> []" by code_simp
  with f obtain d where d: "top_category (categories (frictions_of ex_wins)) d"
    "f = [friction_line d]" by blast
  have "d = ''Process / Quality Metrics''"
    using d(1) unfolding top_category_def fc by auto
  moreover have "friction_line ''Process / Quality Metrics''
      = ''Friction hotspots: **Process / Quality Metrics** (prioritize coaching/unblocking).''"
    by code_simp
  ultimately have f': "f = [''Friction hotspots: **Process / Quality Metrics** (prioritize coaching/unblocking).'']"
    using d(2) by simp
  show ?thesis using b w' f' by blast
qed

text \<open>
  C8 as stated fails. With the category written \<^verbatim>\<open>Risk/Incident Management\<close>, as the
  claim writes it, a negative record is no friction record and no friction line is
  emitted, and the wins line is emitted with bold markers. In \<open>ex_tie\<close> the two wins
  have the categories Planning and Hiring in this order, and under the sort that flips
  ties the wins line names Hiring.
\<close>

theorem wins_and_friction_counterexample:
  "''Wins cluster in Risk/Incident Management (e.g., 1 recent positives).''
     \<notin> set (emitted (build_insights (keep_ties count_key) (keep_ties due_key) ex_slash))
   \<and> ''Friction hotspots: Risk/Incident Management (prioritize coaching/unblocking).''
     \<notin> set (emitted (build_insights (keep_ties count_key) (keep_ties due_key) ex_slash))
   \<and> frictions_of ex_slash = []
   \<and> last (emitted (build_insights (keep_ties count_key) (keep_ties due_key) ex_slash))
       = ''Wins cluster in **Risk/Incident Management** (e.g., 1 recent positives).''
   \<and> dominant (categories (wins_of ex_tie)) = Some ''Planning''
   \<and> ''Wins cluster in **Hiring** (e.g., 2 recent positives).''
     \<in> set (emitted (build_insights (flip_ties count_key) (keep_ties due_key) ex_tie))"
  by code_simp

section \<open>The evaluation instant\<close>

text \<open>
  C10, as amended. \<^verbatim>\<open>load_data\<close> takes no instant: it takes one reading of the system
  clock, and every status it stores is the four-branch rule at that reading. Its frame,
  and so the statuses and the insight sequence, depend on nothing of the world but the
  spreadsheet and that one reading: two worlds that agree on them, however their clocks
  run before and after, give the same frame. \<^verbatim>\<open>build_insights\<close> takes the view only and
  reads the statuses stored in it.
\<close>

theorem load_data_reads_clock_once:
  assumes "xlsx w1 = xlsx w2" and "clock w1 (reads w1) = clock w2 (reads w2)"
  shows "fst (load_data to_datetime w1) = fst (load_data to_datetime w2)
    \<and> bind_res (fst (load_data to_datetime w1)) (build_insights sort_counts sort_rows)
        = bind_res (fst (load_data to_datetime w2)) (build_insights sort_counts sort_rows)
    \<and> (\<forall>df. fst (load_data to_datetime w1) = Inr df \<longrightarrow>
           reads (snd (load_data to_datetime w1)) = Suc (reads w1)
           \<and> (\<forall>r\<in>set df. row_status r = status_rule (due_date r) (clock w1 (reads w1))))"
proof -
  have eq: "fst (load_data to_datetime w1) = fst (load_data to_datetime w2)"
    using assms by (simp add: load_data_def today_def Let_def split: option.splits)
  have rd: "reads (snd (load_data to_datetime w1)) = Suc (reads w1)"
    if "fst (load_data to_datetime w1) = Inr df" for df
    using that by (auto simp: load_data_def today_def Let_def split: option.splits)
  have st: "\<forall>r\<in>set df. row_status r = status_rule (due_date r) (clock w1 (reads w1))"
    if "fst (load_data to_datetime w1) = Inr df" for df
    using with_status_in_load[OF that] by blast
  show ?thesis using eq rd st by simp
qed

theorem load_data_reads_clock_once_witness:
  "reads ex_world_a \<noteq> reads ex_world_c
   \<and> fst (load_data only_stamps ex_world_a) = fst (load_data only_stamps ex_world_c)
   \<and> fst (load_data only_stamps ex_world_a) = Inr ex_view
   \<and> reads (snd (load_data only_stamps ex_world_a)) = 1"
proof -
  have h1: "xlsx ex_world_a = xlsx ex_world_c"
    by (simp add: ex_world_a_def ex_world_c_def)
  have h2: "clock ex_world_a (reads ex_world_a) = clock ex_world_c (reads ex_world_c)"
    by (simp add: ex_world_a_def ex_world_c_def)
  note t = load_data_reads_clock_once[OF h1 h2, of only_stamps "keep_ties count_key"
      "keep_ties due_key"]
  have l: "fst (load_data only_stamps ex_world_a) = Inr ex_view" by code_simp
  have "reads (snd (load_data only_stamps ex_world_a)) = Suc (reads ex_world_a)"
    using t l by blast
  moreover have "reads ex_world_a = 0" by (simp add: ex_world_a_def)
  moreover have "reads ex_world_a \<noteq> reads ex_world_c"
    by (simp add: ex_world_a_def ex_world_c_def)
  ultimately show ?thesis using t l by simp
qed

text \<open>
  C10 as stated fails: with no argument changed, the same spreadsheet loaded a week later
  gets other statuses and another insight sequence, and the block of the upcoming
  deadlines, which takes a reading of its own, lists other records.
\<close>

theorem implicit_clock_counterexample:
  "xlsx ex_world_a = xlsx ex_world_b
   \<and> fst (load_data only_stamps ex_world_a) = Inr ex_view
   \<and> fst (load_data only_stamps ex_world_b) \<noteq> Inr ex_view
   \<and> bind_res (fst (load_data only_stamps ex_world_a))
         (build_insights (keep_ties count_key) (keep_ties due_key))
       \<noteq> bind_res (fst (load_data only_stamps ex_world_b))
           (build_insights (keep_ties count_key) (keep_ties due_key))
   \<and> fst (next7 (keep_ties due_key) ex_world_a ex_view)
       \<noteq> fst (next7 (keep_ties due_key) ex_world_b ex_view)"
  by code_simp

end
